theory Spec2Isabelle
  imports Complex_Main
begin

section \<open>Python errors\<close>

text \<open>
  The exceptions the modelled code can raise.  \<open>IndexError\<close> comes from
  \<^verbatim>\<open>list.pop(0)\<close> on an empty list, \<open>ValueError\<close> from unpacking a shape that
  has not three entries, \<open>ZeroDivisionError\<close> from a float division by \<open>0.0\<close>,
  \<open>AttributeError\<close> from calling a method on \<^verbatim>\<open>None\<close>, and \<open>OpenSlideError\<close>
  is what the OpenSlide binding raises when a region cannot be read.
\<close>

datatype py_error = IndexError | ValueError | ZeroDivisionError | AttributeError | OpenSlideError

section \<open>TileCache (MainWidget.py, class TileCache)\<close>

text \<open>
  \<^verbatim>\<open>self.cache\<close> is a dict, \<^verbatim>\<open>self.access_order\<close> a list with the most recently
  used key last, \<^verbatim>\<open>self.max_size\<close> an int.  The lock is not modelled: every
  operation below is one atomic step.
\<close>

record ('k, 'v) TileCache =
  cache :: "'k \<rightharpoonup> 'v"
  access_order :: "'k list"
  max_size :: int

definition TileCache_init :: "int \<Rightarrow> ('k, 'v) TileCache" where
  "TileCache_init n = \<lparr>cache = Map.empty, access_order = [], max_size = n\<rparr>"

text \<open>
  \<^verbatim>\<open>get\<close>: on a hit the key is removed from the recency list (a \<^verbatim>\<open>ValueError\<close>
  of \<^verbatim>\<open>list.remove\<close> is swallowed, which is what \<open>remove1\<close> does on an absent
  element) and appended at the tail; a miss returns \<^verbatim>\<open>None\<close> and changes nothing.
\<close>

definition get :: "('k, 'v) TileCache \<Rightarrow> 'k \<Rightarrow> 'v option \<times> ('k, 'v) TileCache" where
  "get c key =
     (case cache c key of
        Some v \<Rightarrow> (Some v, c\<lparr>access_order := remove1 key (access_order c) @ [key]\<rparr>)
      | None \<Rightarrow> (None, c))"

text \<open>
  \<^verbatim>\<open>put\<close>: nothing happens when the key is present.  Otherwise, when the
  recency list is at least \<open>max_size\<close> long, \<^verbatim>\<open>access_order.pop(0)\<close> takes the
  oldest key (raising \<^verbatim>\<open>IndexError\<close> on an empty list, before anything was
  changed) and \<^verbatim>\<open>cache.pop(oldest, None)\<close> drops it; then the entry is stored
  and the key appended.
\<close>

definition put :: "('k, 'v) TileCache \<Rightarrow> 'k \<Rightarrow> 'v \<Rightarrow> py_error + ('k, 'v) TileCache" where
  "put c key val =
     (case cache c key of
        Some _ \<Rightarrow> Inr c
      | None \<Rightarrow>
          (if max_size c \<le> int (length (access_order c)) then
             (case access_order c of
                [] \<Rightarrow> Inl IndexError
              | oldest # rest \<Rightarrow>
                  Inr (c\<lparr>cache := ((cache c)(oldest := None))(key \<mapsto> val),
                         access_order := rest @ [key]\<rparr>))
           else Inr (c\<lparr>cache := (cache c)(key \<mapsto> val),
                       access_order := access_order c @ [key]\<rparr>)))"

definition clear :: "('k, 'v) TileCache \<Rightarrow> ('k, 'v) TileCache" where
  "clear c = c\<lparr>cache := Map.empty, access_order := []\<rparr>"

text \<open>A run of \<^verbatim>\<open>put\<close> calls, stopping at the first exception.\<close>

fun put_all :: "('k, 'v) TileCache \<Rightarrow> ('k \<times> 'v) list \<Rightarrow> py_error + ('k, 'v) TileCache" where
  "put_all c [] = Inr c"
| "put_all c ((k, v) # kvs) =
     (case put c k v of Inl e \<Rightarrow> Inl e | Inr c' \<Rightarrow> put_all c' kvs)"

text \<open>
  The data invariant of the cache: the recency list holds exactly the keys of
  the dict, each once.
\<close>

definition cache_inv :: "('k, 'v) TileCache \<Rightarrow> bool" where
  "cache_inv c \<longleftrightarrow> distinct (access_order c) \<and> set (access_order c) = dom (cache c)"

text \<open>A cache given by its entries, oldest first.\<close>

definition cache_of :: "('k \<times> 'v) list \<Rightarrow> int \<Rightarrow> ('k, 'v) TileCache" where
  "cache_of kvs n = \<lparr>cache = map_of kvs, access_order = map fst kvs, max_size = n\<rparr>"

section \<open>Numbers, ranges and rectangles\<close>

text \<open>
  Python floats and Qt's \<open>qreal\<close> are modelled as real numbers: every comparison
  below is exact, every arithmetic operation is the real one, and rounding is not
  modelled.  \<open>py_int\<close> is \<^verbatim>\<open>int(x)\<close> on a float (truncation towards zero),
  \<open>py_range\<close> is \<^verbatim>\<open>range(start, stop, step)\<close> for a positive step, and
  \<^verbatim>\<open>//\<close> on ints is \<open>div\<close>.
\<close>

definition py_int :: "real \<Rightarrow> int" where
  "py_int r = (if r < 0 then \<lceil>r\<rceil> else \<lfloor>r\<rfloor>)"

definition py_range :: "int \<Rightarrow> int \<Rightarrow> int \<Rightarrow> int list" where
  "py_range start stop step =
     map (\<lambda>i. start + int i * step) [0..<nat ((stop - start + step - 1) div step)]"

text \<open>
  Qt's \<open>QRectF\<close> (a corner and a size), with the accessors the code calls.
  \<open>intersected\<close> follows Qt: a rectangle of zero width or height, or two
  rectangles that do not overlap, give the null rectangle.
\<close>

record QRectF =
  rx :: real
  ry :: real
  rw :: real
  rh :: real

definition QRectF_null :: QRectF where
  "QRectF_null = \<lparr>rx = 0, ry = 0, rw = 0, rh = 0\<rparr>"

definition rect_left :: "QRectF \<Rightarrow> real" where "rect_left r = rx r"
definition rect_top :: "QRectF \<Rightarrow> real" where "rect_top r = ry r"
definition rect_right :: "QRectF \<Rightarrow> real" where "rect_right r = rx r + rw r"
definition rect_bottom :: "QRectF \<Rightarrow> real" where "rect_bottom r = ry r + rh r"

definition rect_center :: "QRectF \<Rightarrow> real \<times> real" where
  "rect_center r = (rx r + rw r / 2, ry r + rh r / 2)"

definition rect_isEmpty :: "QRectF \<Rightarrow> bool" where
  "rect_isEmpty r \<longleftrightarrow> rw r \<le> 0 \<or> rh r \<le> 0"

definition intersected :: "QRectF \<Rightarrow> QRectF \<Rightarrow> QRectF" where
  "intersected a b =
     (let l1 = (if rw a < 0 then rx a + rw a else rx a);
          r1 = (if rw a < 0 then rx a else rx a + rw a);
          l2 = (if rw b < 0 then rx b + rw b else rx b);
          r2 = (if rw b < 0 then rx b else rx b + rw b);
          t1 = (if rh a < 0 then ry a + rh a else ry a);
          b1 = (if rh a < 0 then ry a else ry a + rh a);
          t2 = (if rh b < 0 then ry b + rh b else ry b);
          b2 = (if rh b < 0 then ry b else ry b + rh b)
      in if l1 = r1 \<or> l2 = r2 \<or> r2 \<le> l1 \<or> r1 \<le> l2 then QRectF_null
         else if t1 = b1 \<or> t2 = b2 \<or> b2 \<le> t1 \<or> b1 \<le> t2 then QRectF_null
         else \<lparr>rx = max l1 l2, ry = max t1 t2,
                rw = min r1 r2 - max l1 l2, rh = min b1 b2 - max t1 t2\<rparr>)"

section \<open>The slide and WSIViewer (MainWidget.py, class WSIViewer)\<close>

text \<open>
  A decoded tile is a numpy array; only its shape and its contents matter here.
  What a signal of type \<^verbatim>\<open>object\<close> can carry is \<^verbatim>\<open>None\<close>, an array, or
  something else.
\<close>

datatype ndarray = NdArray (shape: "nat list") (pixels: "nat list")

datatype pyobj = PyNone | PyArray ndarray | PyOther

text \<open>
  The OpenSlide handle is an external collaborator, given by what the code reads
  from it: the number of levels, the per-level dimensions and downsample factors
  (the code indexes them at levels in range only; they are total functions here)
  and \<^verbatim>\<open>read_region(location, level, size)\<close>, which may raise.
\<close>

record slide =
  level_count :: int
  level_dimensions :: "int \<Rightarrow> int \<times> int"
  level_downsamples :: "int \<Rightarrow> real"
  read_region :: "int \<times> int \<Rightarrow> int \<Rightarrow> int \<times> int \<Rightarrow> py_error + ndarray"

type_synonym cache_key = "int \<times> int \<times> int \<times> int"

record WSIViewer =
  viewer_slide :: slide
  viewer_cache :: "(cache_key, ndarray) TileCache"

definition WSIViewer_init :: "slide \<Rightarrow> WSIViewer" where
  "WSIViewer_init sl = \<lparr>viewer_slide = sl, viewer_cache = TileCache_init 1600\<rparr>"

definition get_dimensions :: "WSIViewer \<Rightarrow> int \<Rightarrow> int \<times> int" where
  "get_dimensions v level = level_dimensions (viewer_slide v) level"

definition get_level_count :: "WSIViewer \<Rightarrow> int" where
  "get_level_count v = level_count (viewer_slide v)"

definition get_downsample :: "WSIViewer \<Rightarrow> int \<Rightarrow> real" where
  "get_downsample v level = level_downsamples (viewer_slide v) level"

text \<open>
  \<^verbatim>\<open>read_tile\<close>: a cache hit returns the cached array; otherwise the region is
  read and stored.  An exception of \<^verbatim>\<open>read_region\<close> or of \<^verbatim>\<open>put\<close> leaves the
  function; the viewer keeps what \<^verbatim>\<open>get\<close> did to the cache.
\<close>

definition read_tile ::
  "WSIViewer \<Rightarrow> int \<Rightarrow> int \<Rightarrow> int \<Rightarrow> int \<Rightarrow> (py_error + ndarray) \<times> WSIViewer" where
  "read_tile v x_l0 y_l0 tile_size level =
     (let key = (level, x_l0, y_l0, tile_size);
          (cached, c1) = get (viewer_cache v) key
      in case cached of
           Some arr \<Rightarrow> (Inr arr, v\<lparr>viewer_cache := c1\<rparr>)
         | None \<Rightarrow>
             (case read_region (viewer_slide v) (x_l0, y_l0) level (tile_size, tile_size) of
                Inl e \<Rightarrow> (Inl e, v\<lparr>viewer_cache := c1\<rparr>)
              | Inr arr \<Rightarrow>
                  (case put c1 key arr of
                     Inl e \<Rightarrow> (Inl e, v\<lparr>viewer_cache := c1\<rparr>)
                   | Inr c2 \<Rightarrow> (Inr arr, v\<lparr>viewer_cache := c2\<rparr>))))"

definition viewer_close :: "WSIViewer \<Rightarrow> WSIViewer" where
  "viewer_close v = v\<lparr>viewer_cache := clear (viewer_cache v)\<rparr>"

section \<open>MainWidget: state\<close>

text \<open>
  The fields of \<^verbatim>\<open>MainWidget\<close> that the tile scheduling reads and writes.
  \<^verbatim>\<open>wsi_tile_items\<close> is a dict whose insertion order the code uses, so it is an
  association list (oldest first, keys distinct).  The Qt objects are given by
  what the code observes of them: the items of the scene and its rectangle, the
  horizontal scale \<^verbatim>\<open>transform().m11()\<close> of the view, and the scene rectangle
  the viewport shows (\<^verbatim>\<open>mapToScene(viewport().rect()).boundingRect()\<close>).  The
  executor is the list of the tasks submitted so far, in order.  Scale bar, HUD and
  overview are display only and left out.
\<close>

type_synonym tile_key = "int \<times> int \<times> int"

datatype scene_item = PixmapItem int int ndarray | RectItem QRectF

datatype task = Task (task_lv: int) (task_tx: int) (task_ty: int)
  (task_x0: int) (task_y0: int) (task_t: int)

record MainWidget =
  wsi_viewer :: "WSIViewer option"
  wsi_tile_items :: "(tile_key \<times> scene_item) list"
  pending_tasks :: "tile_key set"
  current_level :: int
  scene_items :: "scene_item list"
  scene_rect :: QRectF
  roi_rect_item :: "scene_item option"
  view_m11 :: real
  view_rect :: QRectF
  executor :: "task list"
  update_timer_active :: bool

text \<open>
  \<^verbatim>\<open>TILE_SIZE\<close>, \<^verbatim>\<open>MAX_TILES_PER_REQUEST\<close> and \<^verbatim>\<open>MAX_TILES_ON_SCENE\<close> are set
  in \<^verbatim>\<open>__init__\<close> and never assigned again.
\<close>

definition TILE_SIZE :: int where "TILE_SIZE = 512"
definition MAX_TILES_PER_REQUEST :: int where "MAX_TILES_PER_REQUEST = 256"
definition MAX_TILES_ON_SCENE :: int where "MAX_TILES_ON_SCENE = 2500"

definition MainWidget_init :: MainWidget where
  "MainWidget_init =
     \<lparr>wsi_viewer = None, wsi_tile_items = [], pending_tasks = {}, current_level = 0,
      scene_items = [], scene_rect = QRectF_null, roi_rect_item = None,
      view_m11 = 1, view_rect = QRectF_null, executor = [], update_timer_active = False\<rparr>"

text \<open>\<^verbatim>\<open>key in self.wsi_tile_items\<close> and \<^verbatim>\<open>self.wsi_tile_items[key] = item\<close>.\<close>

definition placed :: "MainWidget \<Rightarrow> tile_key \<Rightarrow> bool" where
  "placed s key \<longleftrightarrow> key \<in> fst ` set (wsi_tile_items s)"

definition dict_set :: "'k \<Rightarrow> 'v \<Rightarrow> ('k \<times> 'v) list \<Rightarrow> ('k \<times> 'v) list" where
  "dict_set k v xs =
     (if k \<in> fst ` set xs then map (\<lambda>(k', v'). if k' = k then (k', v) else (k', v')) xs
      else xs @ [(k, v)])"

text \<open>
  The geometry of \<^verbatim>\<open>QGraphicsView\<close>, from Qt.  The transform of the view is a
  scaling by \<open>view_m11\<close> in both directions (every call of the code that changes
  the scale uses one factor for both), taken without translation and with a scale
  that is not zero.  The viewport is a whole number of pixels wide and high, the
  scroll values are integers, and a viewport pixel \<open>q\<close> shows the scene point
  \<open>(q + scroll) / view_m11\<close>; so \<open>view_rect\<close> starts at \<open>scroll / view_m11\<close> and
  is \<open>viewport_width / view_m11\<close> wide.  \<open>qRound\<close> rounds halves away from zero.
  \<^verbatim>\<open>viewport().rect().center()\<close> is the pixel \<open>(width - 1) div 2\<close>, so the scene
  point \<^verbatim>\<open>mapToScene(viewport().rect().center())\<close> is \<open>viewport_center\<close>.
\<close>

definition qRound :: "real \<Rightarrow> int" where
  "qRound d = (if 0 \<le> d then \<lfloor>d + 1 / 2\<rfloor> else \<lceil>d - 1 / 2\<rceil>)"

definition viewport_width :: "MainWidget \<Rightarrow> int" where
  "viewport_width s = \<lfloor>rw (view_rect s) * view_m11 s\<rfloor>"

definition viewport_height :: "MainWidget \<Rightarrow> int" where
  "viewport_height s = \<lfloor>rh (view_rect s) * view_m11 s\<rfloor>"

definition center_pixel :: "int \<Rightarrow> int" where
  "center_pixel n = (if n \<le> 0 then 0 else (n - 1) div 2)"

definition viewport_center :: "MainWidget \<Rightarrow> real \<times> real" where
  "viewport_center s =
     (rx (view_rect s) + real_of_int (center_pixel (viewport_width s)) / view_m11 s,
      ry (view_rect s) + real_of_int (center_pixel (viewport_height s)) / view_m11 s)"

text \<open>
  The scroll value that \<^verbatim>\<open>centerOn\<close> sets along one axis, for the scale \<open>m\<close>,
  the scene from \<open>lo\<close> of length \<open>len\<close>, a viewport of \<open>n\<close> pixels and the
  target coordinate \<open>p\<close>.  The scroll bar ranges from the rounded start of the
  scaled scene to its rounded end less the viewport; the value is the rounded
  \<open>m * p - n / 2\<close>, moved into that range.  When the scaled scene is not longer
  than the viewport the scroll bar is fixed and the scene sits in the middle of the
  viewport.
\<close>

definition scroll_value :: "real \<Rightarrow> real \<Rightarrow> real \<Rightarrow> int \<Rightarrow> real \<Rightarrow> int" where
  "scroll_value m lo len n p =
     (let left = qRound (m * lo);
          right = qRound (m * (lo + len) - real_of_int n)
      in if right \<le> left
         then py_int (- (real_of_int n / 2 - (m * lo + m * (lo + len)) / 2))
         else max left (min right (qRound (m * p - real_of_int n / 2))))"

text \<open>
  \<^verbatim>\<open>QGraphicsView.centerOn(p)\<close> sets the two scroll values.  It does not touch
  the transform, nor the size of the viewport.
\<close>

definition centerOn :: "real \<times> real \<Rightarrow> MainWidget \<Rightarrow> MainWidget" where
  "centerOn p s =
     s\<lparr>view_rect := (view_rect s)
         \<lparr>rx := real_of_int (scroll_value (view_m11 s) (rx (scene_rect s)) (rw (scene_rect s))
                    (viewport_width s) (fst p)) / view_m11 s,
          ry := real_of_int (scroll_value (view_m11 s) (ry (scene_rect s)) (rh (scene_rect s))
                    (viewport_height s) (snd p)) / view_m11 s\<rparr>\<rparr>"

section \<open>MainWidget.update\_visible\_tiles\<close>

text \<open>
  The recycling of the oldest third of the placed tiles when more than
  \<open>MAX_TILES_ON_SCENE\<close> are on the scene.
\<close>

definition recycle_tiles :: "MainWidget \<Rightarrow> MainWidget" where
  "recycle_tiles s =
     (if MAX_TILES_ON_SCENE < int (length (wsi_tile_items s)) then
        (let old = take (length (wsi_tile_items s) div 3) (wsi_tile_items s)
         in s\<lparr>scene_items := fold remove1 (map snd old) (scene_items s),
               wsi_tile_items := drop (length (wsi_tile_items s) div 3) (wsi_tile_items s)\<rparr>)
      else s)"

text \<open>The test of the removal loop: another level, or outside the box with its margin.\<close>

definition tile_stale :: "int \<Rightarrow> int \<Rightarrow> int \<Rightarrow> int \<Rightarrow> int \<Rightarrow> tile_key \<Rightarrow> bool" where
  "tile_stale level x0 y0 x1 y1 key =
     (case key of (lv, tx, ty) \<Rightarrow>
        lv \<noteq> level \<or>
        tx + TILE_SIZE < x0 - TILE_SIZE \<or> x1 + TILE_SIZE < tx \<or>
        ty + TILE_SIZE < y0 - TILE_SIZE \<or> y1 + TILE_SIZE < ty)"

definition remove_invisible :: "int \<Rightarrow> int \<Rightarrow> int \<Rightarrow> int \<Rightarrow> MainWidget \<Rightarrow> MainWidget" where
  "remove_invisible x0 y0 x1 y1 s =
     (let to_remove = filter (\<lambda>(k, it). tile_stale (current_level s) x0 y0 x1 y1 k)
                        (wsi_tile_items s)
      in s\<lparr>wsi_tile_items := filter (\<lambda>(k, it). \<not> tile_stale (current_level s) x0 y0 x1 y1 k)
                                (wsi_tile_items s),
            scene_items := fold remove1 (map snd to_remove) (scene_items s)\<rparr>)"

text \<open>
  The candidate list, in the order of the two nested loops (rows, then columns):
  triples \<open>(dist2, x, y)\<close> of the keys that are neither placed nor pending.
\<close>

definition dist2 :: "real \<times> real \<Rightarrow> int \<Rightarrow> int \<Rightarrow> real" where
  "dist2 center x y =
     (real_of_int x + real_of_int TILE_SIZE / 2 - fst center)\<^sup>2 +
     (real_of_int y + real_of_int TILE_SIZE / 2 - snd center)\<^sup>2"

definition candidates ::
  "MainWidget \<Rightarrow> real \<times> real \<Rightarrow> int \<Rightarrow> int \<Rightarrow> int \<Rightarrow> int \<Rightarrow> (real \<times> int \<times> int) list" where
  "candidates s center x0 y0 x1 y1 =
     concat (map (\<lambda>y. concat (map (\<lambda>x.
         if placed s (current_level s, x, y) \<or> (current_level s, x, y) \<in> pending_tasks s
         then [] else [(dist2 center x y, x, y)])
       (py_range x0 (x1 + TILE_SIZE) TILE_SIZE)))
     (py_range y0 (y1 + TILE_SIZE) TILE_SIZE))"

text \<open>
  The dispatch loop.  One iteration adds the key to \<^verbatim>\<open>pending_tasks\<close> and then
  submits the task, which holds the level, the tile origin, the origin in level-0
  coordinates and the tile size.
\<close>

definition pending_add :: "tile_key \<Rightarrow> MainWidget \<Rightarrow> MainWidget" where
  "pending_add key s = s\<lparr>pending_tasks := insert key (pending_tasks s)\<rparr>"

definition executor_submit :: "task \<Rightarrow> MainWidget \<Rightarrow> MainWidget" where
  "executor_submit t s = s\<lparr>executor := executor s @ [t]\<rparr>"

definition make_task :: "int \<Rightarrow> real \<Rightarrow> int \<Rightarrow> int \<Rightarrow> task" where
  "make_task lv ds x y =
     Task lv x y (py_int (real_of_int x * ds)) (py_int (real_of_int y * ds)) TILE_SIZE"

fun dispatch :: "real \<Rightarrow> int \<Rightarrow> (real \<times> int \<times> int) list \<Rightarrow> MainWidget \<Rightarrow> MainWidget" where
  "dispatch ds count [] s = s"
| "dispatch ds count ((d, x, y) # cs) s =
     (if MAX_TILES_PER_REQUEST \<le> count then s
      else dispatch ds (count + 1) cs
             (executor_submit (make_task (current_level s) ds x y)
                (pending_add (current_level s, x, y) s)))"

definition update_visible_tiles :: "MainWidget \<Rightarrow> MainWidget" where
  "update_visible_tiles s =
     (case wsi_viewer s of
        None \<Rightarrow> s
      | Some v \<Rightarrow>
          (let rect = intersected (view_rect s) (scene_rect s)
           in if rect_isEmpty rect then s
              else
                (let x0 = py_int (rect_left rect) div TILE_SIZE * TILE_SIZE;
                     y0 = py_int (rect_top rect) div TILE_SIZE * TILE_SIZE;
                     x1 = py_int (rect_right rect);
                     y1 = py_int (rect_bottom rect);
                     s2 = remove_invisible x0 y0 x1 y1 (recycle_tiles s);
                     ds = get_downsample v (current_level s2)
                 in dispatch ds 0
                      (sort_key fst (candidates s2 (rect_center rect) x0 y0 x1 y1)) s2)))"

section \<open>Worker tasks and MainWidget.\_on\_tile\_loaded\<close>

text \<open>
  The body of a submitted task: \<^verbatim>\<open>read_tile\<close> on the viewer the widget holds
  when the task runs, then the \<^verbatim>\<open>tile_loaded\<close> signal.  The result is the signal
  emitted, or the exception that ended the task before it could emit (the
  executor keeps it in a future nobody reads).
\<close>

definition run_task ::
  "task \<Rightarrow> MainWidget \<Rightarrow> (py_error + int \<times> int \<times> int \<times> pyobj) \<times> MainWidget" where
  "run_task t s =
     (case wsi_viewer s of
        None \<Rightarrow> (Inl AttributeError, s)
      | Some v \<Rightarrow>
          (case read_tile v (task_x0 t) (task_y0 t) (task_t t) (task_lv t) of
             (Inl e, v') \<Rightarrow> (Inl e, s\<lparr>wsi_viewer := Some v'\<rparr>)
           | (Inr arr, v') \<Rightarrow>
               (Inr (task_tx t, task_ty t, task_lv t, PyArray arr), s\<lparr>wsi_viewer := Some v'\<rparr>)))"

text \<open>
  The slot connected to \<^verbatim>\<open>tile_loaded\<close>.  The key leaves \<^verbatim>\<open>pending_tasks\<close>
  first; then come the three guards; then the shape is unpacked (three entries,
  or \<^verbatim>\<open>ValueError\<close>) and the item is placed.
\<close>

definition on_tile_loaded ::
  "int \<Rightarrow> int \<Rightarrow> int \<Rightarrow> pyobj \<Rightarrow> MainWidget \<Rightarrow> py_error + MainWidget" where
  "on_tile_loaded x y level arr s =
     (let key = (level, x, y);
          s1 = s\<lparr>pending_tasks := pending_tasks s - {key}\<rparr>
      in case arr of
           PyArray a \<Rightarrow>
             (if wsi_viewer s1 = None \<or> level \<noteq> current_level s1 then Inr s1
              else if placed s1 key then Inr s1
              else (case shape a of
                      [h, w, c] \<Rightarrow>
                        Inr (s1\<lparr>scene_items := scene_items s1 @ [PixmapItem x y a],
                                wsi_tile_items :=
                                  dict_set key (PixmapItem x y a) (wsi_tile_items s1)\<rparr>)
                    | _ \<Rightarrow> Inl ValueError))
         | _ \<Rightarrow> Inr s1)"

text \<open>A task run to its end: the signal, if one was emitted, reaches the slot.\<close>

definition complete_task :: "task \<Rightarrow> MainWidget \<Rightarrow> py_error + MainWidget" where
  "complete_task t s =
     (case run_task t s of
        (Inl e, s') \<Rightarrow> Inr s'
      | (Inr (x, y, level, arr), s') \<Rightarrow> on_tile_loaded x y level arr s')"

section \<open>Level selection and the reload of the scene\<close>

definition upper :: real where "upper = 2.4"
definition lower :: real where "lower = 0.7"

text \<open>The \<^verbatim>\<open>if\<close>/\<^verbatim>\<open>elif\<close> of \<^verbatim>\<open>_maybe_change_level\<close>.\<close>

definition change_level :: "real \<Rightarrow> WSIViewer \<Rightarrow> MainWidget \<Rightarrow> MainWidget" where
  "change_level view_scale v s =
     (if upper < view_scale \<and> 0 < current_level s
      then s\<lparr>current_level := current_level s - 1\<rparr>
      else if view_scale < lower \<and> current_level s < get_level_count v - 1
      then s\<lparr>current_level := current_level s + 1\<rparr>
      else s)"

text \<open>
  The point \<^verbatim>\<open>center_scene_new\<close> of \<^verbatim>\<open>_reload_scene_for_level\<close>: the scene
  point at the centre pixel of the viewport, taken to level 0 with the downsample
  of the old level and back with that of the current one.
\<close>

definition center_scene_new :: "WSIViewer \<Rightarrow> int \<Rightarrow> MainWidget \<Rightarrow> real \<times> real" where
  "center_scene_new v old_level s =
     (let old_ds = get_downsample v old_level;
          new_ds = get_downsample v (current_level s);
          cx0 = fst (viewport_center s) * old_ds;
          cy0 = snd (viewport_center s) * old_ds
      in (cx0 / new_ds, cy0 / new_ds))"

text \<open>
  \<^verbatim>\<open>_reload_scene_for_level\<close> up to its last line: the scene rectangle of the
  new level, the clearing of the scene, of the placed tiles and of the pending
  set, and \<^verbatim>\<open>centerOn\<close> at the new centre.  The division by the new downsample
  raises when that is zero.  None of these calls changes the transform of the
  view.
\<close>

definition reload_scene :: "WSIViewer \<Rightarrow> int \<Rightarrow> MainWidget \<Rightarrow> py_error + MainWidget" where
  "reload_scene v old_level s =
     (let new_ds = get_downsample v (current_level s);
          dim = get_dimensions v (current_level s)
      in if new_ds = 0 then Inl ZeroDivisionError
         else Inr (centerOn (center_scene_new v old_level s)
                (s\<lparr>scene_rect := \<lparr>rx = 0, ry = 0, rw = real_of_int (fst dim),
                                   rh = real_of_int (snd dim)\<rparr>,
                    scene_items := [], wsi_tile_items := [], pending_tasks := {},
                    roi_rect_item := None\<rparr>)))"

text \<open>
  The measure of the refresh cycle: how many levels are left in the direction the
  scale of the view asks for.
\<close>

definition levels_left :: "MainWidget \<Rightarrow> nat" where
  "levels_left s =
     (case wsi_viewer s of
        None \<Rightarrow> 0
      | Some v \<Rightarrow>
          (if upper < view_m11 s then nat (current_level s)
           else if view_m11 s < lower then nat (get_level_count v - 1 - current_level s)
           else 0))"

text \<open>
  What the steps of a refresh leave alone: the viewer, the level and the scale of
  the view.  The termination of the refresh cycle rests on these.
\<close>

lemma dispatch_frame:
  "wsi_viewer (dispatch ds n cs s) = wsi_viewer s \<and>
   current_level (dispatch ds n cs s) = current_level s \<and>
   view_m11 (dispatch ds n cs s) = view_m11 s"
  by (induction ds n cs s rule: dispatch.induct)
     (simp_all add: executor_submit_def pending_add_def)

lemma levels_left_frame:
  "wsi_viewer s' = wsi_viewer s \<Longrightarrow> current_level s' = current_level s \<Longrightarrow>
   view_m11 s' = view_m11 s \<Longrightarrow> levels_left s' = levels_left s"
  by (simp add: levels_left_def split: option.splits)

lemma update_visible_tiles_frame:
  "wsi_viewer (update_visible_tiles s) = wsi_viewer s \<and>
   current_level (update_visible_tiles s) = current_level s \<and>
   view_m11 (update_visible_tiles s) = view_m11 s"
  by (simp add: update_visible_tiles_def Let_def dispatch_frame
      remove_invisible_def recycle_tiles_def split: option.splits)

lemma levels_left_update_visible_tiles:
  "levels_left (update_visible_tiles s) = levels_left s"
  by (rule levels_left_frame) (simp_all add: update_visible_tiles_frame)

lemma reload_scene_frame:
  "reload_scene v old_level s = Inr b \<Longrightarrow>
   wsi_viewer b = wsi_viewer s \<and> current_level b = current_level s \<and> view_m11 b = view_m11 s"
  by (auto simp: reload_scene_def Let_def centerOn_def split: if_splits)

lemma levels_left_reload_scene:
  "reload_scene v old_level s = Inr b \<Longrightarrow> levels_left b = levels_left s"
  by (rule levels_left_frame) (simp_all add: reload_scene_frame)

lemma levels_left_timer:
  "levels_left (s\<lparr>update_timer_active := a\<rparr>) = levels_left s"
  by (rule levels_left_frame) simp_all

lemma levels_left_change_level:
  "wsi_viewer s = Some v \<Longrightarrow>
   current_level (change_level (view_m11 s) v s) \<noteq> current_level s \<Longrightarrow>
   Suc (levels_left (change_level (view_m11 s) v s)) = levels_left s"
  by (auto simp: levels_left_def change_level_def upper_def lower_def split: if_splits)

lemma levels_left_change_level_le:
  "wsi_viewer s = Some v \<Longrightarrow>
   levels_left (change_level view_scale v s)
     \<le> nat \<bar>current_level s\<bar> + nat \<bar>get_level_count v - 1\<bar> + 1"
  by (auto simp: levels_left_def change_level_def split: if_splits)

text \<open>
  The refresh cycle.  \<^verbatim>\<open>_maybe_change_level\<close> moves the level by one step and,
  when it moved, calls \<^verbatim>\<open>_reload_scene_for_level\<close>, whose last line is
  \<^verbatim>\<open>request_update(force=True)\<close>; that runs \<^verbatim>\<open>_do_update\<close> at once, which
  ends in \<^verbatim>\<open>_update_scale_bar_and_hud\<close>, which reads the scale of the view and
  calls \<^verbatim>\<open>_maybe_change_level\<close> again.  An unforced \<^verbatim>\<open>request_update\<close> only
  starts the single-shot timer.  After the level selection,
  \<^verbatim>\<open>_update_scale_bar_and_hud\<close> divides the scale by the downsample of the
  current level (the rest of it is display).
\<close>

fun refresh_measure ::
  "(real \<times> MainWidget + int \<times> MainWidget) + (bool \<times> MainWidget + MainWidget + MainWidget) \<Rightarrow> nat"
where
  "refresh_measure (Inl (Inl (view_scale, s))) =
     (if view_scale = view_m11 s then 5 * levels_left s
      else 5 * (nat \<bar>current_level s\<bar> +
                (case wsi_viewer s of None \<Rightarrow> 0 | Some v \<Rightarrow> nat \<bar>get_level_count v - 1\<bar>) + 2))"
| "refresh_measure (Inl (Inr (old_level, s))) = 5 * levels_left s + 4"
| "refresh_measure (Inr (Inl (force, s))) = 5 * levels_left s + 3"
| "refresh_measure (Inr (Inr (Inl s))) = 5 * levels_left s + 2"
| "refresh_measure (Inr (Inr (Inr s))) = 5 * levels_left s + 1"

function maybe_change_level :: "real \<Rightarrow> MainWidget \<Rightarrow> py_error + MainWidget"
  and reload_scene_for_level :: "int \<Rightarrow> MainWidget \<Rightarrow> py_error + MainWidget"
  and request_update :: "bool \<Rightarrow> MainWidget \<Rightarrow> py_error + MainWidget"
  and do_update :: "MainWidget \<Rightarrow> py_error + MainWidget"
  and update_scale_bar_and_hud :: "MainWidget \<Rightarrow> py_error + MainWidget"
where
  "maybe_change_level view_scale s =
     (case wsi_viewer s of
        None \<Rightarrow> Inr s
      | Some v \<Rightarrow>
          (if current_level (change_level view_scale v s) \<noteq> current_level s
           then reload_scene_for_level (current_level s) (change_level view_scale v s)
           else Inr (change_level view_scale v s)))"
| "reload_scene_for_level old_level s =
     (case wsi_viewer s of
        None \<Rightarrow> Inr s
      | Some v \<Rightarrow>
          (case reload_scene v old_level s of
             Inl e \<Rightarrow> Inl e
           | Inr s1 \<Rightarrow> request_update True s1))"
| "request_update force s =
     (if force then do_update (s\<lparr>update_timer_active := False\<rparr>)
      else Inr (s\<lparr>update_timer_active := True\<rparr>))"
| "do_update s = update_scale_bar_and_hud (update_visible_tiles s)"
| "update_scale_bar_and_hud s =
     (case wsi_viewer s of
        None \<Rightarrow> Inr s
      | Some v \<Rightarrow>
          (case maybe_change_level (view_m11 s) s of
             Inl e \<Rightarrow> Inl e
           | Inr s1 \<Rightarrow>
               (case wsi_viewer s1 of
                  None \<Rightarrow> Inl AttributeError
                | Some v1 \<Rightarrow>
                    if get_downsample v1 (current_level s1) = 0 then Inl ZeroDivisionError
                    else Inr s1)))"
  by pat_completeness auto

termination
proof (relation "measure refresh_measure", goal_cases)
  case 1
  show ?case by simp
next
  case (2 view_scale s v)
  show ?case
  proof (cases "view_scale = view_m11 s")
    case True
    with 2 levels_left_change_level [of s v] show ?thesis by simp
  next
    case False
    with 2 levels_left_change_level_le [of s v view_scale] show ?thesis by simp
  qed
next
  case (3 old_level s v b)
  then show ?case by (simp add: levels_left_reload_scene)
next
  case 4
  then show ?case by (simp add: levels_left_timer)
next
  case 5
  show ?case by (simp add: levels_left_update_visible_tiles)
next
  case 6
  show ?case by simp
qed

declare maybe_change_level.simps [simp del] reload_scene_for_level.simps [simp del]
  request_update.simps [simp del] do_update.simps [simp del]
  update_scale_bar_and_hud.simps [simp del]

section \<open>MainWidget.open\_slide\<close>

text \<open>
  \<^verbatim>\<open>fit_in_view\<close> does nothing on a scene without items; otherwise Qt fits the
  view to the scene (the scale and the shown rectangle that result are the
  parameter \<open>fitted\<close>) and a forced refresh follows.
\<close>

definition fit_in_view :: "real \<times> QRectF \<Rightarrow> MainWidget \<Rightarrow> py_error + MainWidget" where
  "fit_in_view fitted s =
     (if scene_items s = [] then Inr s
      else request_update True (s\<lparr>view_m11 := fst fitted, view_rect := snd fitted\<rparr>))"

text \<open>
  \<^verbatim>\<open>open_slide\<close>.  \<open>opened\<close> is what \<^verbatim>\<open>openslide.OpenSlide(file_path)\<close> gives:
  a handle or an exception; on an exception the function returns after the
  message box.
\<close>

definition open_slide ::
  "py_error + slide \<Rightarrow> real \<times> QRectF \<Rightarrow> MainWidget \<Rightarrow> py_error + MainWidget" where
  "open_slide opened fitted s =
     (let s1 = (case wsi_viewer s of
                  None \<Rightarrow> s
                | Some old \<Rightarrow> s\<lparr>wsi_viewer := None, scene_items := [],
                                wsi_tile_items := [], pending_tasks := {}\<rparr>)
      in case opened of
           Inl e \<Rightarrow> Inr s1
         | Inr sl \<Rightarrow>
             (let v = WSIViewer_init sl;
                  level = min 2 (get_level_count v - 1);
                  dim = get_dimensions v level
              in fit_in_view fitted
                   (s1\<lparr>wsi_viewer := Some v, current_level := level,
                       scene_items := [], wsi_tile_items := [], pending_tasks := {},
                       scene_rect := \<lparr>rx = 0, ry = 0, rw = real_of_int (fst dim),
                                      rh = real_of_int (snd dim)\<rparr>\<rparr>)))"

section \<open>Drivers and example data\<close>

text \<open>
  A sequence of evaluations of the level selector: before each one the user has
  brought the view to the next scale.
\<close>

fun evaluate_all :: "real list \<Rightarrow> MainWidget \<Rightarrow> py_error + MainWidget" where
  "evaluate_all [] s = Inr s"
| "evaluate_all (x # xs) s =
     (case update_scale_bar_and_hud (s\<lparr>view_m11 := x\<rparr>) of
        Inl e \<Rightarrow> Inl e
      | Inr s' \<Rightarrow> evaluate_all xs s')"

text \<open>
  The values \<^verbatim>\<open>update_visible_tiles\<close> computes on its way: the visible
  rectangle, the state after recycling and removal, and the candidate list.
\<close>

definition pass_rect :: "MainWidget \<Rightarrow> QRectF" where
  "pass_rect s = intersected (view_rect s) (scene_rect s)"

definition pass_x0 :: "MainWidget \<Rightarrow> int" where
  "pass_x0 s = py_int (rect_left (pass_rect s)) div TILE_SIZE * TILE_SIZE"

definition pass_y0 :: "MainWidget \<Rightarrow> int" where
  "pass_y0 s = py_int (rect_top (pass_rect s)) div TILE_SIZE * TILE_SIZE"

definition pass_state :: "MainWidget \<Rightarrow> MainWidget" where
  "pass_state s =
     remove_invisible (pass_x0 s) (pass_y0 s) (py_int (rect_right (pass_rect s)))
       (py_int (rect_bottom (pass_rect s))) (recycle_tiles s)"

definition pass_candidates :: "MainWidget \<Rightarrow> (real \<times> int \<times> int) list" where
  "pass_candidates s =
     candidates (pass_state s) (rect_center (pass_rect s)) (pass_x0 s) (pass_y0 s)
       (py_int (rect_right (pass_rect s))) (py_int (rect_bottom (pass_rect s)))"

text \<open>
  A slide with four levels and downsamples 1, 4, 16, 64, whose regions can all
  be read; the same slide with every region read failing; and a widget that shows
  a given rectangle of a given level at a given scale.
\<close>

definition pyramid :: slide where
  "pyramid =
     \<lparr>level_count = 4,
      level_dimensions = (\<lambda>l. (65536 div 4 ^ nat l, 65536 div 4 ^ nat l)),
      level_downsamples = (\<lambda>l. 4 ^ nat l),
      read_region = (\<lambda>loc level size. Inr (NdArray [nat (snd size), nat (fst size), 3] []))\<rparr>"

definition unreadable :: slide where
  "unreadable = pyramid\<lparr>read_region := (\<lambda>loc level size. Inl OpenSlideError)\<rparr>"

definition viewing :: "slide \<Rightarrow> int \<Rightarrow> real \<Rightarrow> QRectF \<Rightarrow> MainWidget" where
  "viewing sl level scale rect =
     MainWidget_init
       \<lparr>wsi_viewer := Some (WSIViewer_init sl), current_level := level,
        scene_rect := \<lparr>rx = 0, ry = 0, rw = real_of_int (fst (level_dimensions sl level)),
                       rh = real_of_int (snd (level_dimensions sl level))\<rparr>,
        view_m11 := scale, view_rect := rect\<rparr>"

definition tile :: ndarray where
  "tile = NdArray [512, 512, 3] []"

text \<open>
  The widget at level 2 and scale 3 with one tile placed and the decode of
  another one under way.
\<close>

definition in_flight :: MainWidget where
  "in_flight =
     (viewing pyramid 2 3 \<lparr>rx = 0, ry = 0, rw = 1024, rh = 1024\<rparr>)
       \<lparr>wsi_tile_items := [((2, 512, 0), PixmapItem 512 0 tile)],
        scene_items := [PixmapItem 512 0 tile],
        pending_tasks := {(2, 0, 0)}\<rparr>"

text \<open>The widget at level 2 and scale 1, showing the top left corner of the level.\<close>

definition central :: MainWidget where
  "central = viewing pyramid 2 1 \<lparr>rx = 0, ry = 0, rw = 1000, rh = 1000\<rparr>"

text \<open>The key and the task that the dispatch loop makes of a candidate.\<close>

definition key_of :: "int \<Rightarrow> real \<times> int \<times> int \<Rightarrow> tile_key" where
  "key_of level c = (case c of (d, x, y) \<Rightarrow> (level, x, y))"

definition task_of :: "int \<Rightarrow> real \<Rightarrow> real \<times> int \<times> int \<Rightarrow> task" where
  "task_of level ds c = (case c of (d, x, y) \<Rightarrow> make_task level ds x y)"

text \<open>
  The widget on the slide whose regions cannot be read; a slide with one level;
  and a slide whose levels halve the one before (downsamples 1, 2, 4, 8).
\<close>

definition failing :: MainWidget where
  "failing = viewing unreadable 2 1 \<lparr>rx = 0, ry = 0, rw = 1000, rh = 1000\<rparr>"

definition single_level :: slide where
  "single_level = pyramid\<lparr>level_count := 1\<rparr>"






text \<open>
  Where the refresh cycle comes to rest: the finest level when the scale of the
  view is above \<open>upper\<close>, the coarsest when it is below \<open>lower\<close>, the current
  level otherwise.
\<close>

definition settled_level :: "WSIViewer \<Rightarrow> MainWidget \<Rightarrow> int" where
  "settled_level v s =
     (if upper < view_m11 s \<and> 0 < current_level s then 0
      else if view_m11 s < lower \<and> current_level s < get_level_count v - 1
      then get_level_count v - 1
      else current_level s)"

section \<open>TileCache: invariant and recency\<close>

lemma cache_inv_init: "cache_inv (TileCache_init n)"
  by (simp add: cache_inv_def TileCache_init_def)

lemma cache_inv_clear: "cache_inv (clear c)"
  by (simp add: cache_inv_def clear_def)

lemma cache_inv_get: "cache_inv c \<Longrightarrow> cache_inv (snd (get c key))"
  by (auto simp: cache_inv_def get_def split: option.splits)

lemma key_absent_not_in_order:
  "cache_inv c \<Longrightarrow> cache c key = None \<Longrightarrow> key \<notin> set (access_order c)"
  by (auto simp: cache_inv_def)

lemma cache_inv_put: "cache_inv c \<Longrightarrow> put c key val = Inr c' \<Longrightarrow> cache_inv c'"
proof (cases "cache c key")
  case (Some v)
  assume "cache_inv c" "put c key val = Inr c'"
  with Some show ?thesis by (simp add: put_def)
next
  case None
  assume inv: "cache_inv c" and p: "put c key val = Inr c'"
  from inv None have fresh: "key \<notin> set (access_order c)"
    by (rule key_absent_not_in_order)
  show ?thesis
  proof (cases "max_size c \<le> int (length (access_order c))")
    case False
    with None p have "c' = c\<lparr>cache := (cache c)(key \<mapsto> val),
        access_order := access_order c @ [key]\<rparr>"
      by (simp add: put_def)
    with inv fresh show ?thesis by (auto simp: cache_inv_def)
  next
    case True
    with None p obtain oldest rest where ao: "access_order c = oldest # rest"
      and c': "c' = c\<lparr>cache := ((cache c)(oldest := None))(key \<mapsto> val),
        access_order := rest @ [key]\<rparr>"
      by (auto simp: put_def split: list.splits)
    from inv ao have "distinct (oldest # rest)" "insert oldest (set rest) = dom (cache c)"
      by (auto simp: cache_inv_def)
    with fresh ao c' show ?thesis by (auto simp: cache_inv_def)
  qed
qed

lemma max_size_put: "put c key val = Inr c' \<Longrightarrow> max_size c' = max_size c"
  by (auto simp: put_def split: option.splits if_splits list.splits)

lemma put_fresh_below:
  "cache c key = None \<Longrightarrow> int (length (access_order c)) < max_size c \<Longrightarrow>
   put c key val = Inr (c\<lparr>cache := (cache c)(key \<mapsto> val),
                           access_order := access_order c @ [key]\<rparr>)"
  by (simp add: put_def)

lemma put_fresh_full:
  "cache c key = None \<Longrightarrow> max_size c \<le> int (length (access_order c)) \<Longrightarrow>
   access_order c = oldest # rest \<Longrightarrow>
   put c key val = Inr (c\<lparr>cache := ((cache c)(oldest := None))(key \<mapsto> val),
                           access_order := rest @ [key]\<rparr>)"
  by (simp add: put_def)

lemma put_present: "cache c key = Some b \<Longrightarrow> put c key val = Inr c"
  by (simp add: put_def)

lemma put_all_order:
  assumes "cache_inv c" "1 \<le> max_size c" "int (length (access_order c)) \<le> max_size c"
    and "distinct (map fst kvs)" "set (map fst kvs) \<inter> dom (cache c) = {}"
  shows "\<exists>c'. put_all c kvs = Inr c' \<and> cache_inv c' \<and> max_size c' = max_size c \<and>
           access_order c' =
             drop (length (access_order c) + length kvs - nat (max_size c))
               (access_order c @ map fst kvs)"
  using assms
proof (induction kvs arbitrary: c)
  case Nil
  then show ?case by simp
next
  case (Cons kv kvs)
  obtain k v where kv: "kv = (k, v)" by (cases kv)
  from Cons.prems kv have fresh: "cache c k = None" by auto
  from Cons.prems(4) have dist1: "distinct (map fst kvs)" by simp
  from Cons.prems(4,5) kv have disj: "set (map fst kvs) \<inter> insert k (dom (cache c)) = {}"
    by auto
  show ?case
  proof (cases "int (length (access_order c)) < max_size c")
    case True
    define c1 where "c1 = c\<lparr>cache := (cache c)(k \<mapsto> v),
                             access_order := access_order c @ [k]\<rparr>"
    from fresh True have p: "put c k v = Inr c1"
      unfolding c1_def by (rule put_fresh_below)
    from Cons.prems(1) p have inv1: "cache_inv c1" by (rule cache_inv_put)
    have ms1: "max_size c1 = max_size c" by (simp add: c1_def)
    from True have len1: "int (length (access_order c1)) \<le> max_size c1"
      by (simp add: c1_def)
    from disj have disj1: "set (map fst kvs) \<inter> dom (cache c1) = {}"
      by (simp add: c1_def)
    from Cons.prems(2) have pos1: "1 \<le> max_size c1" by (simp add: ms1)
    from Cons.IH [OF inv1 pos1 len1 dist1 disj1]
    obtain c' where r: "put_all c1 kvs = Inr c'" "cache_inv c'" "max_size c' = max_size c1"
      and ao': "access_order c' =
          drop (length (access_order c1) + length kvs - nat (max_size c1))
            (access_order c1 @ map fst kvs)"
      by auto
    from ao' have "access_order c' =
        drop (length (access_order c) + length (kv # kvs) - nat (max_size c))
          (access_order c @ map fst (kv # kvs))"
      by (simp add: c1_def kv)
    with r p kv ms1 show ?thesis by simp
  next
    case False
    with Cons.prems(3) have full: "int (length (access_order c)) = max_size c" by simp
    with Cons.prems(2) obtain oldest rest where ao: "access_order c = oldest # rest"
      by (cases "access_order c") auto
    from full ao have n: "nat (max_size c) = Suc (length rest)" by auto
    define c1 where "c1 = c\<lparr>cache := ((cache c)(oldest := None))(k \<mapsto> v),
                             access_order := rest @ [k]\<rparr>"
    from full have "max_size c \<le> int (length (access_order c))" by simp
    from put_fresh_full [OF fresh this ao] have p: "put c k v = Inr c1"
      unfolding c1_def .
    from Cons.prems(1) p have inv1: "cache_inv c1" by (rule cache_inv_put)
    have ms1: "max_size c1 = max_size c" by (simp add: c1_def)
    from full ao have len1: "int (length (access_order c1)) \<le> max_size c1"
      by (simp add: c1_def)
    from disj have disj1: "set (map fst kvs) \<inter> dom (cache c1) = {}"
      by (auto simp: c1_def)
    from Cons.prems(2) have pos1: "1 \<le> max_size c1" by (simp add: ms1)
    from Cons.IH [OF inv1 pos1 len1 dist1 disj1]
    obtain c' where r: "put_all c1 kvs = Inr c'" "cache_inv c'" "max_size c' = max_size c1"
      and ao': "access_order c' =
          drop (length (access_order c1) + length kvs - nat (max_size c1))
            (access_order c1 @ map fst kvs)"
      by auto
    from ao' have "access_order c' = drop (length kvs) (rest @ k # map fst kvs)"
      by (simp add: c1_def n)
    then have "access_order c' =
        drop (length (access_order c) + length (kv # kvs) - nat (max_size c))
          (access_order c @ map fst (kv # kvs))"
      by (simp add: ao n kv)
    with r p kv ms1 show ?thesis by simp
  qed
qed

lemma put_stores: "put c k v = Inr c1 \<Longrightarrow> cache c1 k \<noteq> None"
  by (auto simp: put_def split: option.splits if_splits list.splits)

section \<open>The refresh cycle: placed tiles and the level it settles on\<close>

lemmas refresh_simps = maybe_change_level.simps reload_scene_for_level.simps
  request_update.simps do_update.simps update_scale_bar_and_hud.simps

lemmas widget_defs = viewing_def pyramid_def MainWidget_init_def WSIViewer_init_def
  TileCache_init_def change_level_def upper_def lower_def get_level_count_def
  get_downsample_def get_dimensions_def reload_scene_def centerOn_def rect_center_def
  update_visible_tiles_def intersected_def QRectF_null_def rect_isEmpty_def Let_def
  rect_left_def rect_right_def rect_top_def rect_bottom_def py_int_def TILE_SIZE_def
  py_range_def remove_invisible_def recycle_tiles_def MAX_TILES_ON_SCENE_def candidates_def
  placed_def dist2_def MAX_TILES_PER_REQUEST_def executor_submit_def pending_add_def
  make_task_def tile_stale_def

lemma dispatch_tile_items:
  "wsi_tile_items (dispatch ds n cs s) = wsi_tile_items s"
  by (induction ds n cs s rule: dispatch.induct)
     (simp_all add: executor_submit_def pending_add_def)

lemma update_visible_tiles_no_tiles:
  "wsi_tile_items s = [] \<Longrightarrow> wsi_tile_items (update_visible_tiles s) = []"
  by (simp add: update_visible_tiles_def Let_def dispatch_tile_items
      remove_invisible_def recycle_tiles_def split: option.splits)

lemma reload_scene_no_tiles:
  "reload_scene v old_level s = Inr s1 \<Longrightarrow> wsi_tile_items s1 = []"
  by (auto simp: reload_scene_def Let_def centerOn_def split: if_splits)

lemma refresh_no_tiles:
  "(\<forall>s'. maybe_change_level view_scale s = Inr s' \<longrightarrow> s' = s \<or> wsi_tile_items s' = [])"
  "(\<forall>s'. reload_scene_for_level old_level s1 = Inr s' \<longrightarrow> wsi_viewer s1 \<noteq> None \<longrightarrow>
      wsi_tile_items s' = [])"
  "(\<forall>s'. request_update force s2 = Inr s' \<longrightarrow> wsi_tile_items s2 = [] \<longrightarrow>
      wsi_tile_items s' = [])"
  "(\<forall>s'. do_update s3 = Inr s' \<longrightarrow> wsi_tile_items s3 = [] \<longrightarrow> wsi_tile_items s' = [])"
  "(\<forall>s'. update_scale_bar_and_hud s4 = Inr s' \<longrightarrow> wsi_tile_items s4 = [] \<longrightarrow>
      wsi_tile_items s' = [])"
proof (induction view_scale s and old_level s1 and force s2 and s3 and s4
    rule: maybe_change_level_reload_scene_for_level_request_update_do_update_update_scale_bar_and_hud.induct)
  case (1 view_scale s)
  note eq = maybe_change_level.simps [of view_scale s]
  show ?case
  proof (cases "wsi_viewer s")
    case None
    with eq show ?thesis by simp
  next
    case (Some v)
    show ?thesis
    proof (cases "current_level (change_level view_scale v s) \<noteq> current_level s")
      case True
      have "wsi_viewer (change_level view_scale v s) \<noteq> None"
        using Some by (simp add: change_level_def)
      with 1 [OF Some True] Some True eq show ?thesis by simp
    next
      case False
      then have "change_level view_scale v s = s"
        by (auto simp: change_level_def split: if_splits)
      with Some False eq show ?thesis by simp
    qed
  qed
next
  case (2 old_level s)
  note eq = reload_scene_for_level.simps [of old_level s]
  show ?case
  proof (cases "wsi_viewer s")
    case None
    then show ?thesis by simp
  next
    case (Some v)
    show ?thesis
    proof (cases "reload_scene v old_level s")
      case (Inl e)
      with Some eq show ?thesis by simp
    next
      case (Inr s1)
      from Inr have "wsi_tile_items s1 = []" by (rule reload_scene_no_tiles)
      with 2 [OF Some Inr] Some Inr eq show ?thesis by simp
    qed
  qed
next
  case (3 force s)
  note eq = request_update.simps [of force s]
  from 3 eq show ?case by (cases force) simp_all
next
  case (4 s)
  note eq = do_update.simps [of s]
  from 4 eq show ?case by (simp add: update_visible_tiles_no_tiles)
next
  case (5 s)
  note eq = update_scale_bar_and_hud.simps [of s]
  show ?case
  proof (cases "wsi_viewer s")
    case None
    with eq show ?thesis by simp
  next
    case (Some v)
    show ?thesis
    proof (intro allI impI)
      fix s'
      assume r: "update_scale_bar_and_hud s = Inr s'" and e: "wsi_tile_items s = []"
      from r eq Some obtain s1 where m: "maybe_change_level (view_m11 s) s = Inr s1"
        and s': "s' = s1"
        by (auto split: sum.splits option.splits if_splits)
      from 5 [OF Some] m have "s1 = s \<or> wsi_tile_items s1 = []" by blast
      with e s' show "wsi_tile_items s' = []" by auto
    qed
  qed
qed

lemma on_tile_loaded_discard:
  "(\<forall>a. arr \<noteq> PyArray a) \<or> wsi_viewer s = None \<or> level \<noteq> current_level s \<or>
     placed s (level, x, y) \<Longrightarrow>
   on_tile_loaded x y level arr s =
     Inr (s\<lparr>pending_tasks := pending_tasks s - {(level, x, y)}\<rparr>)"
  by (cases arr) (auto simp: on_tile_loaded_def placed_def Let_def)

lemma settled_level_frame:
  "current_level s' = current_level s \<Longrightarrow> view_m11 s' = view_m11 s \<Longrightarrow>
   settled_level v s' = settled_level v s"
  by (simp add: settled_level_def)

lemma settled_level_change_level:
  "settled_level v (change_level (view_m11 s) v s) = settled_level v s"
  by (auto simp: settled_level_def change_level_def upper_def lower_def)

lemma refresh_settles:
  "(\<forall>v. view_scale = view_m11 s \<longrightarrow> wsi_viewer s = Some v \<longrightarrow> (\<forall>l. get_downsample v l \<noteq> 0) \<longrightarrow>
      (\<exists>s'. maybe_change_level view_scale s = Inr s' \<and> wsi_viewer s' = Some v \<and>
         view_m11 s' = view_m11 s \<and> current_level s' = settled_level v s))"
  "(\<forall>v. wsi_viewer s1 = Some v \<longrightarrow> (\<forall>l. get_downsample v l \<noteq> 0) \<longrightarrow>
      (\<exists>s'. reload_scene_for_level old_level s1 = Inr s' \<and> wsi_viewer s' = Some v \<and>
         view_m11 s' = view_m11 s1 \<and> current_level s' = settled_level v s1))"
  "(\<forall>v. force \<longrightarrow> wsi_viewer s2 = Some v \<longrightarrow> (\<forall>l. get_downsample v l \<noteq> 0) \<longrightarrow>
      (\<exists>s'. request_update force s2 = Inr s' \<and> wsi_viewer s' = Some v \<and>
         view_m11 s' = view_m11 s2 \<and> current_level s' = settled_level v s2))"
  "(\<forall>v. wsi_viewer s3 = Some v \<longrightarrow> (\<forall>l. get_downsample v l \<noteq> 0) \<longrightarrow>
      (\<exists>s'. do_update s3 = Inr s' \<and> wsi_viewer s' = Some v \<and>
         view_m11 s' = view_m11 s3 \<and> current_level s' = settled_level v s3))"
  "(\<forall>v. wsi_viewer s4 = Some v \<longrightarrow> (\<forall>l. get_downsample v l \<noteq> 0) \<longrightarrow>
      (\<exists>s'. update_scale_bar_and_hud s4 = Inr s' \<and> wsi_viewer s' = Some v \<and>
         view_m11 s' = view_m11 s4 \<and> current_level s' = settled_level v s4))"
proof (induction view_scale s and old_level s1 and force s2 and s3 and s4
    rule: maybe_change_level_reload_scene_for_level_request_update_do_update_update_scale_bar_and_hud.induct)
  case (1 view_scale s)
  note eq = maybe_change_level.simps [of view_scale s]
  show ?case
  proof (intro allI impI)
    fix v
    assume vs: "view_scale = view_m11 s" and v: "wsi_viewer s = Some v"
      and ds: "\<forall>l. get_downsample v l \<noteq> 0"
    let ?s1 = "change_level view_scale v s"
    have frame: "wsi_viewer ?s1 = Some v" "view_m11 ?s1 = view_m11 s"
      using v by (simp_all add: change_level_def)
    show "\<exists>s'. maybe_change_level view_scale s = Inr s' \<and> wsi_viewer s' = Some v \<and>
        view_m11 s' = view_m11 s \<and> current_level s' = settled_level v s"
    proof (cases "current_level ?s1 \<noteq> current_level s")
      case True
      from 1 [OF v True] frame ds
      obtain s' where "reload_scene_for_level (current_level s) ?s1 = Inr s'"
        "wsi_viewer s' = Some v" "view_m11 s' = view_m11 ?s1"
        "current_level s' = settled_level v ?s1"
        by blast
      with True v eq frame vs settled_level_change_level [of v s] show ?thesis by simp
    next
      case False
      then have same: "?s1 = s" by (auto simp: change_level_def split: if_splits)
      from False vs have "settled_level v s = current_level s"
        by (auto simp: settled_level_def change_level_def split: if_splits)
      with False v eq same show ?thesis by simp
    qed
  qed
next
  case (2 old_level s)
  note eq = reload_scene_for_level.simps [of old_level s]
  show ?case
  proof (intro allI impI)
    fix v
    assume v: "wsi_viewer s = Some v" and ds: "\<forall>l. get_downsample v l \<noteq> 0"
    from ds obtain s1 where r: "reload_scene v old_level s = Inr s1"
      by (auto simp: reload_scene_def Let_def)
    from reload_scene_frame [OF r] v
    have frame: "wsi_viewer s1 = Some v" "view_m11 s1 = view_m11 s"
      "current_level s1 = current_level s"
      by simp_all
    from 2 [OF v r] frame ds
    obtain s' where "request_update True s1 = Inr s'" "wsi_viewer s' = Some v"
      "view_m11 s' = view_m11 s1" "current_level s' = settled_level v s1"
      by blast
    with v r eq frame settled_level_frame [of s1 s v]
    show "\<exists>s'. reload_scene_for_level old_level s = Inr s' \<and> wsi_viewer s' = Some v \<and>
        view_m11 s' = view_m11 s \<and> current_level s' = settled_level v s"
      by simp
  qed
next
  case (3 force s)
  note eq = request_update.simps [of force s]
  show ?case
  proof (intro allI impI)
    fix v
    assume f: force and v: "wsi_viewer s = Some v" and ds: "\<forall>l. get_downsample v l \<noteq> 0"
    let ?s1 = "s\<lparr>update_timer_active := False\<rparr>"
    from 3 [OF f] v ds
    obtain s' where "do_update ?s1 = Inr s'" "wsi_viewer s' = Some v"
      "view_m11 s' = view_m11 ?s1" "current_level s' = settled_level v ?s1"
      by fastforce
    with f eq settled_level_frame [of ?s1 s v]
    show "\<exists>s'. request_update force s = Inr s' \<and> wsi_viewer s' = Some v \<and>
        view_m11 s' = view_m11 s \<and> current_level s' = settled_level v s"
      by simp
  qed
next
  case (4 s)
  note eq = do_update.simps [of s]
  show ?case
  proof (intro allI impI)
    fix v
    assume v: "wsi_viewer s = Some v" and ds: "\<forall>l. get_downsample v l \<noteq> 0"
    let ?s1 = "update_visible_tiles s"
    from update_visible_tiles_frame [of s] v
    have frame: "wsi_viewer ?s1 = Some v" "view_m11 ?s1 = view_m11 s"
      "current_level ?s1 = current_level s"
      by simp_all
    from 4 frame ds
    obtain s' where "update_scale_bar_and_hud ?s1 = Inr s'" "wsi_viewer s' = Some v"
      "view_m11 s' = view_m11 ?s1" "current_level s' = settled_level v ?s1"
      by blast
    with eq frame settled_level_frame [of ?s1 s v]
    show "\<exists>s'. do_update s = Inr s' \<and> wsi_viewer s' = Some v \<and>
        view_m11 s' = view_m11 s \<and> current_level s' = settled_level v s"
      by simp
  qed
next
  case (5 s)
  note eq = update_scale_bar_and_hud.simps [of s]
  show ?case
  proof (intro allI impI)
    fix v
    assume v: "wsi_viewer s = Some v" and ds: "\<forall>l. get_downsample v l \<noteq> 0"
    from 5 [OF v] v ds
    obtain s' where "maybe_change_level (view_m11 s) s = Inr s'" "wsi_viewer s' = Some v"
      "view_m11 s' = view_m11 s" "current_level s' = settled_level v s"
      by blast
    with eq v ds
    show "\<exists>s'. update_scale_bar_and_hud s = Inr s' \<and> wsi_viewer s' = Some v \<and>
        view_m11 s' = view_m11 s \<and> current_level s' = settled_level v s"
      by simp
  qed
qed

lemma maybe_change_level_in_band:
  "lower \<le> view_scale \<Longrightarrow> view_scale \<le> upper \<Longrightarrow> maybe_change_level view_scale s = Inr s"
  by (auto simp: maybe_change_level.simps [of view_scale s] change_level_def
      split: option.splits)

lemma hud_in_band:
  assumes "wsi_viewer s = Some v" "get_downsample v (current_level s) \<noteq> 0"
    "lower \<le> view_m11 s" "view_m11 s \<le> upper"
  shows "update_scale_bar_and_hud s = Inr s"
  using assms
  by (simp add: update_scale_bar_and_hud.simps [of s] maybe_change_level_in_band)

lemma evaluate_all_in_band:
  assumes "wsi_viewer s = Some v" "get_downsample v (current_level s) \<noteq> 0"
    "\<forall>x \<in> set xs. lower \<le> x \<and> x \<le> upper"
  shows "evaluate_all xs s = Inr (s\<lparr>view_m11 := last (view_m11 s # xs)\<rparr>)"
  using assms
proof (induction xs arbitrary: s)
  case Nil
  then show ?case by simp
next
  case (Cons x xs)
  let ?s1 = "s\<lparr>view_m11 := x\<rparr>"
  from Cons.prems have "update_scale_bar_and_hud ?s1 = Inr ?s1"
    by (intro hud_in_band [of _ v]) simp_all
  moreover from Cons.prems
  have "evaluate_all xs ?s1 = Inr (?s1\<lparr>view_m11 := last (view_m11 ?s1 # xs)\<rparr>)"
    by (intro Cons.IH) simp_all
  ultimately show ?case by simp
qed

lemma pyramid_downsamples: "\<forall>l. get_downsample (WSIViewer_init pyramid) l \<noteq> 0"
  by (simp add: get_downsample_def WSIViewer_init_def pyramid_def)

lemma viewing_viewer: "wsi_viewer (viewing sl level scale rect) = Some (WSIViewer_init sl)"
  by (simp add: viewing_def)

lemma viewing_fields:
  "current_level (viewing sl level scale rect) = level"
  "view_m11 (viewing sl level scale rect) = scale"
  "wsi_tile_items (viewing sl level scale rect) = []"
  "pending_tasks (viewing sl level scale rect) = {}"
  by (simp_all add: viewing_def MainWidget_init_def)

section \<open>The scheduling pass\<close>

text \<open>
  \<open>py_range\<close> holds what \<^verbatim>\<open>range\<close> yields for a positive step: the numbers from
  \<open>start\<close> up to but not including \<open>stop\<close>, a multiple of the step away from
  \<open>start\<close>.
\<close>

lemma py_range_mem:
  assumes "0 < step"
  shows "x \<in> set (py_range start stop step) \<longleftrightarrow>
         start \<le> x \<and> x < stop \<and> step dvd (x - start)"
proof
  let ?n = "stop - start + step - 1"
  assume "x \<in> set (py_range start stop step)"
  then obtain i where i: "i < nat (?n div step)" and x: "x = start + int i * step"
    by (auto simp: py_range_def)
  from i have "int i + 1 \<le> ?n div step" by simp
  with assms have "(int i + 1) * step \<le> ?n div step * step"
    by (intro mult_right_mono) simp_all
  also have "\<dots> = ?n - ?n mod step" by (simp add: minus_mod_eq_div_mult)
  also have "\<dots> \<le> ?n"
  proof -
    from assms have "0 \<le> ?n mod step" by (rule pos_mod_sign)
    then show ?thesis by linarith
  qed
  finally have "int i * step < stop - start" by (simp add: algebra_simps)
  with assms x show "start \<le> x \<and> x < stop \<and> step dvd (x - start)" by simp
next
  assume a: "start \<le> x \<and> x < stop \<and> step dvd (x - start)"
  then obtain k where k: "x - start = step * k" by (auto simp: dvd_def)
  from a k have "0 \<le> step * k" by simp
  with assms have k0: "0 \<le> k" by (simp add: zero_le_mult_iff)
  from k a have "step * (k + 1) \<le> stop - start + step - 1" by (simp add: algebra_simps)
  with assms have "step * (k + 1) div step \<le> (stop - start + step - 1) div step"
    by (intro zdiv_mono1) simp_all
  with assms have "k < (stop - start + step - 1) div step" by simp
  with k0 have "nat k < nat ((stop - start + step - 1) div step)" by simp
  moreover from k k0 have "x = start + int (nat k) * step" by (simp add: mult.commute)
  ultimately show "x \<in> set (py_range start stop step)"
    unfolding py_range_def by (auto simp: image_iff intro!: bexI [of _ "nat k"])
qed

lemma dispatch_take:
  "dispatch ds n cs s =
     s\<lparr>pending_tasks :=
         pending_tasks s \<union> key_of (current_level s) ` set (take (nat (MAX_TILES_PER_REQUEST - n)) cs),
       executor :=
         executor s @ map (task_of (current_level s) ds) (take (nat (MAX_TILES_PER_REQUEST - n)) cs)\<rparr>"
proof (induction ds n cs s rule: dispatch.induct)
  case (1 ds count s)
  show ?case by simp
next
  case (2 ds count d x y cs s)
  show ?case
  proof (cases "MAX_TILES_PER_REQUEST \<le> count")
    case True
    then show ?thesis by simp
  next
    case False
    then obtain m where m: "nat (MAX_TILES_PER_REQUEST - count) = Suc m"
      and m': "nat (MAX_TILES_PER_REQUEST - (count + 1)) = m"
      by (cases "nat (MAX_TILES_PER_REQUEST - count)") auto
    from False 2 show ?thesis
      by (simp add: m m' executor_submit_def pending_add_def key_of_def task_of_def)
  qed
qed

lemma update_visible_tiles_pass:
  assumes "wsi_viewer s = Some v" and "\<not> rect_isEmpty (pass_rect s)"
  shows "update_visible_tiles s =
           dispatch (get_downsample v (current_level s)) 0
             (sort_key fst (pass_candidates s)) (pass_state s)"
  using assms
  by (simp add: update_visible_tiles_def Let_def pass_rect_def pass_state_def pass_candidates_def
      pass_x0_def pass_y0_def remove_invisible_def recycle_tiles_def)

lemma pass_state_frame:
  "current_level (pass_state s) = current_level s"
  "pending_tasks (pass_state s) = pending_tasks s"
  "executor (pass_state s) = executor s"
  by (simp_all add: pass_state_def remove_invisible_def recycle_tiles_def Let_def)

lemma candidates_sound:
  "(d, x, y) \<in> set (candidates s center x0 y0 x1 y1) \<Longrightarrow>
   d = dist2 center x y \<and> \<not> placed s (current_level s, x, y) \<and>
   (current_level s, x, y) \<notin> pending_tasks s \<and>
   x \<in> set (py_range x0 (x1 + TILE_SIZE) TILE_SIZE) \<and>
   y \<in> set (py_range y0 (y1 + TILE_SIZE) TILE_SIZE)"
  by (auto simp: candidates_def split: if_splits)

lemma central_pass:
  "pass_rect central = \<lparr>rx = 0, ry = 0, rw = 1000, rh = 1000\<rparr>"
  "pass_state central = central"
  "current_level central = 2"
  by (simp_all add: central_def widget_defs pass_rect_def pass_state_def pass_x0_def pass_y0_def)

lemma central_candidates:
  "pass_candidates central =
     [(119072, 0, 0), (131360, 512, 0), (667936, 1024, 0),
      (131360, 0, 512), (143648, 512, 512), (680224, 1024, 512),
      (667936, 0, 1024), (680224, 512, 1024), (1216800, 1024, 1024)]"
  by (simp add: pass_candidates_def central_pass pass_x0_def pass_y0_def)
     (simp add: central_def widget_defs eval_nat_numeral power2_eq_square)

lemma central_sorted:
  "sort_key fst (pass_candidates central) =
     [(119072, 0, 0), (131360, 512, 0), (131360, 0, 512), (143648, 512, 512),
      (667936, 1024, 0), (667936, 0, 1024), (680224, 1024, 512), (680224, 512, 1024),
      (1216800, 1024, 1024)]"
  by (simp add: central_candidates)

lemma central_viewer: "wsi_viewer central = Some (WSIViewer_init pyramid)"
  by (simp add: central_def viewing_viewer)

lemma central_fields: "executor central = []" "pending_tasks central = {}"
  by (simp_all add: central_def viewing_def MainWidget_init_def)

section \<open>Tasks whose read fails\<close>

lemma get_miss: "cache c key = None \<Longrightarrow> get c key = (None, c)"
  by (simp add: get_def)

lemma complete_task_read_fails:
  assumes "wsi_viewer s = Some v"
    and "cache (viewer_cache v) (lv, x0, y0, t) = None"
    and "read_region (viewer_slide v) (x0, y0) lv (t, t) = Inl e"
  shows "run_task (Task lv tx ty x0 y0 t) s = (Inl e, s)"
    and "complete_task (Task lv tx ty x0 y0 t) s = Inr s"
proof -
  from assms(2,3) have "read_tile v x0 y0 t lv = (Inl e, v)"
    by (simp add: read_tile_def get_miss)
  with assms(1) show r: "run_task (Task lv tx ty x0 y0 t) s = (Inl e, s)"
    by (simp add: run_task_def)
  then show "complete_task (Task lv tx ty x0 y0 t) s = Inr s"
    by (simp add: complete_task_def)
qed

lemma failing_pass:
  "pass_rect failing = \<lparr>rx = 0, ry = 0, rw = 1000, rh = 1000\<rparr>"
  "pass_state failing = failing"
  "current_level failing = 2"
  "wsi_viewer failing = Some (WSIViewer_init unreadable)"
  "executor failing = []"
  "pending_tasks failing = {}"
  by (simp_all add: failing_def unreadable_def widget_defs pass_rect_def pass_state_def
      pass_x0_def pass_y0_def)

lemma failing_candidates:
  "pass_candidates failing =
     [(119072, 0, 0), (131360, 512, 0), (667936, 1024, 0),
      (131360, 0, 512), (143648, 512, 512), (680224, 1024, 512),
      (667936, 0, 1024), (680224, 512, 1024), (1216800, 1024, 1024)]"
  by (simp add: pass_candidates_def failing_pass pass_x0_def pass_y0_def)
     (simp add: failing_def unreadable_def widget_defs eval_nat_numeral power2_eq_square)

lemma failing_dispatched:
  "update_visible_tiles failing =
     failing\<lparr>pending_tasks :=
         {(2, 0, 0), (2, 512, 0), (2, 0, 512), (2, 512, 512), (2, 1024, 0), (2, 0, 1024),
          (2, 1024, 512), (2, 512, 1024), (2, 1024, 1024)},
       executor :=
         [Task 2 0 0 0 0 512, Task 2 512 0 8192 0 512, Task 2 0 512 0 8192 512,
          Task 2 512 512 8192 8192 512, Task 2 1024 0 16384 0 512,
          Task 2 0 1024 0 16384 512, Task 2 1024 512 16384 8192 512,
          Task 2 512 1024 8192 16384 512, Task 2 1024 1024 16384 16384 512]\<rparr>"
proof -
  have ne: "\<not> rect_isEmpty (pass_rect failing)"
    by (simp add: failing_pass rect_isEmpty_def)
  have ds: "get_downsample (WSIViewer_init unreadable) 2 = 16"
    by (simp add: get_downsample_def WSIViewer_init_def unreadable_def pyramid_def)
  show ?thesis
    unfolding update_visible_tiles_pass [OF failing_pass(4) ne] dispatch_take
    by (simp add: failing_candidates failing_pass MAX_TILES_PER_REQUEST_def ds key_of_def
        task_of_def make_task_def py_int_def TILE_SIZE_def insert_commute)
qed

lemma candidates_all_pending:
  "\<forall>x \<in> set (py_range x0 (x1 + TILE_SIZE) TILE_SIZE).
   \<forall>y \<in> set (py_range y0 (y1 + TILE_SIZE) TILE_SIZE).
     (current_level s, x, y) \<in> pending_tasks s \<Longrightarrow>
   candidates s center x0 y0 x1 y1 = []"
  by (simp add: candidates_def)

lemma failing_second_pass:
  "update_visible_tiles (update_visible_tiles failing) = update_visible_tiles failing"
proof -
  let ?s = "update_visible_tiles failing"
  have v: "wsi_viewer ?s = Some (WSIViewer_init unreadable)"
    by (simp add: failing_dispatched failing_pass)
  have r: "pass_rect ?s = \<lparr>rx = 0, ry = 0, rw = 1000, rh = 1000\<rparr>"
    unfolding failing_dispatched
    by (simp add: failing_def unreadable_def widget_defs pass_rect_def)
  then have ne: "\<not> rect_isEmpty (pass_rect ?s)" by (simp add: rect_isEmpty_def)
  have st: "pass_state ?s = ?s"
    unfolding failing_dispatched
    by (simp add: failing_def unreadable_def widget_defs pass_rect_def pass_state_def
        pass_x0_def pass_y0_def)
  have x0: "pass_x0 ?s = 0" "pass_y0 ?s = 0"
    by (simp_all add: pass_x0_def pass_y0_def r rect_left_def rect_top_def py_int_def)
  have x1: "py_int (rect_right (pass_rect ?s)) = 1000" "py_int (rect_bottom (pass_rect ?s)) = 1000"
    by (simp_all add: r rect_right_def rect_bottom_def py_int_def)
  have rg: "py_range 0 (1000 + TILE_SIZE) TILE_SIZE = [0, 512, 1024]"
    by (simp add: py_range_def TILE_SIZE_def eval_nat_numeral)
  have lv: "current_level ?s = 2" by (simp add: failing_dispatched failing_pass)
  have pd: "pending_tasks ?s =
      {(2, 0, 0), (2, 512, 0), (2, 0, 512), (2, 512, 512), (2, 1024, 0), (2, 0, 1024),
       (2, 1024, 512), (2, 512, 1024), (2, 1024, 1024)}"
    by (simp add: failing_dispatched)
  have "pass_candidates ?s = []"
    unfolding pass_candidates_def st x0 x1
    by (rule candidates_all_pending) (simp add: rg lv pd)
  with update_visible_tiles_pass [OF v ne] st show ?thesis by simp
qed

section \<open>The view across a level change\<close>





















section \<open>C1: eviction of the least recently used key\<close>

text \<open>
  Claim C1, for a capacity of at least one.  In a cache that holds \<open>max_size\<close>
  entries, \<^verbatim>\<open>put\<close> of an absent key drops the head of the recency list (the
  least recently used key) from the dict and appends the new key at the tail.
  And \<open>max_size + 1\<close> distinct new keys put one after the other, with no
  \<^verbatim>\<open>get\<close> in between, leave exactly the last \<open>max_size\<close> of them: the first is
  absent, the others are present.
\<close>

theorem put_evicts_least_recently_used:
  assumes "cache_inv c" and "1 \<le> max_size c"
    and "int (length (access_order c)) \<le> max_size c"
  shows "(cache c key = None \<and> int (length (access_order c)) = max_size c \<longrightarrow>
            (\<exists>oldest rest. access_order c = oldest # rest \<and>
               put c key val =
                 Inr (c\<lparr>cache := ((cache c)(oldest := None))(key \<mapsto> val),
                        access_order := rest @ [key]\<rparr>))) \<and>
         (distinct (map fst kvs) \<and> set (map fst kvs) \<inter> dom (cache c) = {} \<and>
          int (length kvs) = max_size c + 1 \<longrightarrow>
            (\<exists>c'. put_all c kvs = Inr c' \<and> access_order c' = tl (map fst kvs) \<and>
               cache c' (fst (hd kvs)) = None \<and>
               (\<forall>k \<in> set (tl (map fst kvs)). cache c' k \<noteq> None)))"
proof (intro conjI impI)
  assume a: "cache c key = None \<and> int (length (access_order c)) = max_size c"
  with assms(2) obtain oldest rest where ao: "access_order c = oldest # rest"
    by (cases "access_order c") auto
  from a have "max_size c \<le> int (length (access_order c))" by simp
  with a ao have "put c key val =
      Inr (c\<lparr>cache := ((cache c)(oldest := None))(key \<mapsto> val),
             access_order := rest @ [key]\<rparr>)"
    by (simp add: put_fresh_full)
  with ao show "\<exists>oldest rest. access_order c = oldest # rest \<and>
      put c key val =
        Inr (c\<lparr>cache := ((cache c)(oldest := None))(key \<mapsto> val),
               access_order := rest @ [key]\<rparr>)"
    by blast
next
  assume b: "distinct (map fst kvs) \<and> set (map fst kvs) \<inter> dom (cache c) = {} \<and>
      int (length kvs) = max_size c + 1"
  then have d: "distinct (map fst kvs)" and dj: "set (map fst kvs) \<inter> dom (cache c) = {}"
    and len: "int (length kvs) = max_size c + 1"
    by simp_all
  from put_all_order [OF assms d dj]
  obtain c' where r: "put_all c kvs = Inr c'" and inv': "cache_inv c'"
    and ao': "access_order c' =
        drop (length (access_order c) + length kvs - nat (max_size c))
          (access_order c @ map fst kvs)"
    by auto
  from len assms(2) have "length kvs = Suc (nat (max_size c))" by auto
  with ao' have tl: "access_order c' = tl (map fst kvs)"
    by (simp add: drop_Suc drop_tl)
  from len assms(2) obtain kv rest where kvs: "kvs = kv # rest"
    by (cases kvs) auto
  from inv' have dom': "dom (cache c') = set (access_order c')"
    by (simp add: cache_inv_def)
  from d kvs have "fst (hd kvs) \<notin> set (tl (map fst kvs))" by simp
  with dom' tl have absent: "cache c' (fst (hd kvs)) = None" by (auto simp: domIff)
  from dom' tl have "\<forall>k \<in> set (tl (map fst kvs)). cache c' k \<noteq> None" by (auto simp: domIff)
  with r tl absent show "\<exists>c'. put_all c kvs = Inr c' \<and> access_order c' = tl (map fst kvs) \<and>
      cache c' (fst (hd kvs)) = None \<and> (\<forall>k \<in> set (tl (map fst kvs)). cache c' k \<noteq> None)"
    by blast
qed

theorem put_evicts_least_recently_used_witness:
  "(\<exists>oldest rest. access_order (cache_of [(1::nat, 10::nat), (2, 20)] 2) = oldest # rest \<and>
      put (cache_of [(1::nat, 10::nat), (2, 20)] 2) 3 30 =
        Inr ((cache_of [(1::nat, 10::nat), (2, 20)] 2)
              \<lparr>cache := ((cache (cache_of [(1::nat, 10::nat), (2, 20)] 2))(oldest := None))(3 \<mapsto> 30),
               access_order := rest @ [3]\<rparr>)) \<and>
   (\<exists>c'. put_all (cache_of [(1::nat, 10::nat), (2, 20)] 2) [(3, 30), (4, 40), (5, 50)] = Inr c' \<and>
      access_order c' = [4, 5] \<and> cache c' 3 = None \<and> cache c' 4 \<noteq> None \<and> cache c' 5 \<noteq> None)"
proof -
  let ?c = "cache_of [(1::nat, 10::nat), (2, 20)] 2"
  let ?kvs = "[(3::nat, 30::nat), (4, 40), (5, 50)]"
  have inv: "cache_inv ?c" by (simp add: cache_inv_def cache_of_def)
  have pos: "1 \<le> max_size ?c" by (simp add: cache_of_def)
  have len: "int (length (access_order ?c)) \<le> max_size ?c" by (simp add: cache_of_def)
  have full: "cache ?c 3 = None \<and> int (length (access_order ?c)) = max_size ?c"
    by (simp add: cache_of_def)
  have new: "distinct (map fst ?kvs) \<and> set (map fst ?kvs) \<inter> dom (cache ?c) = {} \<and>
      int (length ?kvs) = max_size ?c + 1"
    by (simp add: cache_of_def)
  note T = put_evicts_least_recently_used [OF inv pos len, of 3 30 ?kvs]
  from T full have one: "\<exists>oldest rest. access_order ?c = oldest # rest \<and>
      put ?c 3 30 = Inr (?c\<lparr>cache := ((cache ?c)(oldest := None))(3 \<mapsto> 30),
                           access_order := rest @ [3]\<rparr>)"
    by blast
  from T new obtain c' where r: "put_all ?c ?kvs = Inr c'"
    and ao: "access_order c' = tl (map fst ?kvs)"
    and ab: "cache c' (fst (hd ?kvs)) = None"
    and pr: "\<forall>k \<in> set (tl (map fst ?kvs)). cache c' k \<noteq> None"
    by blast
  from ao have ao': "access_order c' = [4, 5]" by simp
  from ab have ab': "cache c' 3 = None" by simp
  from pr have pr': "cache c' 4 \<noteq> None" "cache c' 5 \<noteq> None" by simp_all
  from r ao' ab' pr' have "\<exists>c'. put_all ?c ?kvs = Inr c' \<and>
      access_order c' = [4, 5] \<and> cache c' 3 = None \<and> cache c' 4 \<noteq> None \<and> cache c' 5 \<noteq> None"
    by blast
  with one show ?thesis by blast
qed

text \<open>
  With capacity zero the very first \<^verbatim>\<open>put\<close> pops from an empty recency list.
\<close>

theorem put_capacity_zero_counterexample:
  "put (TileCache_init 0) (1::nat) (10::nat) = Inl IndexError"
  by (simp add: put_def TileCache_init_def)

section \<open>C7: a hit refreshes the recency of the key\<close>

text \<open>
  Claim C7, for a cache that holds another key.  \<^verbatim>\<open>get\<close> of a present key returns
  its buffer, changes nothing but the recency list, and moves the key to the tail
  of that list.  When the cache holds at least two keys and is full, the next
  \<^verbatim>\<open>put\<close> of a new key evicts the head of the list, which is another key.  In
  the scenario with capacity two (put A, B, C; get A; put D) the third \<^verbatim>\<open>put\<close>
  has already evicted A, the \<^verbatim>\<open>get\<close> is a miss, and the key that D evicts is B.
\<close>

theorem get_refreshes_recency:
  assumes "cache_inv c" and "cache c key = Some buf"
  shows "fst (get c key) = Some buf \<and>
         snd (get c key) = c\<lparr>access_order := remove1 key (access_order c) @ [key]\<rparr> \<and>
         last (access_order (snd (get c key))) = key \<and>
         (2 \<le> length (access_order c) \<and> cache c k2 = None \<and>
          max_size c \<le> int (length (access_order c)) \<longrightarrow>
            (\<exists>oldest rest. access_order (snd (get c key)) = oldest # rest \<and> oldest \<noteq> key \<and>
               put (snd (get c key)) k2 val =
                 Inr ((snd (get c key))\<lparr>cache := ((cache c)(oldest := None))(k2 \<mapsto> val),
                        access_order := rest @ [k2]\<rparr>))) \<and>
         (distinct [ka, kb, kc, kd] \<longrightarrow>
            (\<exists>c3 c4. put_all (TileCache_init 2) [(ka, va), (kb, vb), (kc, vc)] = Inr c3 \<and>
               cache c3 kb = Some vb \<and> fst (get c3 ka) = None \<and>
               put (snd (get c3 ka)) kd vd = Inr c4 \<and>
               cache c4 kb = None \<and> access_order c4 = [kc, kd]))"
proof (intro conjI impI)
  let ?g = "snd (get c key)"
  from assms(2) show 1: "fst (get c key) = Some buf" by (simp add: get_def)
  from assms(2) show 2: "?g = c\<lparr>access_order := remove1 key (access_order c) @ [key]\<rparr>"
    by (simp add: get_def)
  then show "last (access_order ?g) = key" by simp
  {
    assume a: "2 \<le> length (access_order c) \<and> cache c k2 = None \<and>
        max_size c \<le> int (length (access_order c))"
    from assms have mem: "key \<in> set (access_order c)" and d: "distinct (access_order c)"
      by (auto simp: cache_inv_def)
    from a have "2 \<le> length (access_order c)" by simp
    with mem have "remove1 key (access_order c) \<noteq> []"
      by (cases "access_order c") (auto simp: length_Suc_conv split: if_splits)
    then obtain oldest r where rm: "remove1 key (access_order c) = oldest # r"
      by (cases "remove1 key (access_order c)") auto
    from d have "key \<notin> set (remove1 key (access_order c))" by simp
    with rm have ne: "oldest \<noteq> key" by auto
    from rm 2 have ao: "access_order ?g = oldest # (r @ [key])" by simp
    from 2 a have fresh: "cache ?g k2 = None" by simp
    from mem have "length (remove1 key (access_order c) @ [key]) = length (access_order c)"
      by (simp add: length_remove1) (cases "access_order c"; simp)
    with a 2 have full: "max_size ?g \<le> int (length (access_order ?g))" by simp
    from put_fresh_full [OF fresh full ao, of val] 2
    have "put ?g k2 val = Inr (?g\<lparr>cache := ((cache c)(oldest := None))(k2 \<mapsto> val),
        access_order := (r @ [key]) @ [k2]\<rparr>)"
      by simp
    with ao ne show "\<exists>oldest rest. access_order ?g = oldest # rest \<and> oldest \<noteq> key \<and>
        put ?g k2 val = Inr (?g\<lparr>cache := ((cache c)(oldest := None))(k2 \<mapsto> val),
          access_order := rest @ [k2]\<rparr>)"
      by blast
  }
  {
    assume "distinct [ka, kb, kc, kd]"
    then show "\<exists>c3 c4. put_all (TileCache_init 2) [(ka, va), (kb, vb), (kc, vc)] = Inr c3 \<and>
        cache c3 kb = Some vb \<and> fst (get c3 ka) = None \<and>
        put (snd (get c3 ka)) kd vd = Inr c4 \<and>
        cache c4 kb = None \<and> access_order c4 = [kc, kd]"
      by (auto simp: TileCache_init_def put_def get_def)
  }
qed

theorem get_refreshes_recency_witness:
  "fst (get (cache_of [(1::nat, 10::nat), (2, 20)] 2) 1) = Some 10 \<and>
   last (access_order (snd (get (cache_of [(1::nat, 10::nat), (2, 20)] 2) 1))) = 1 \<and>
   (\<exists>oldest rest.
      access_order (snd (get (cache_of [(1::nat, 10::nat), (2, 20)] 2) 1)) = oldest # rest \<and>
      oldest \<noteq> 1 \<and>
      put (snd (get (cache_of [(1::nat, 10::nat), (2, 20)] 2) 1)) 3 30 =
        Inr ((snd (get (cache_of [(1::nat, 10::nat), (2, 20)] 2) 1))
              \<lparr>cache := ((cache (cache_of [(1::nat, 10::nat), (2, 20)] 2))(oldest := None))(3 \<mapsto> 30),
               access_order := rest @ [3]\<rparr>)) \<and>
   (\<exists>c3 c4. put_all (TileCache_init 2) [(1::nat, 10::nat), (2, 20), (3, 30)] = Inr c3 \<and>
      cache c3 2 = Some 20 \<and> fst (get c3 1) = None \<and>
      put (snd (get c3 1)) 4 40 = Inr c4 \<and> cache c4 2 = None \<and> access_order c4 = [3, 4])"
proof -
  let ?c = "cache_of [(1::nat, 10::nat), (2, 20)] 2"
  have inv: "cache_inv ?c" by (simp add: cache_inv_def cache_of_def)
  have hit: "cache ?c 1 = Some 10" by (simp add: cache_of_def)
  have full: "2 \<le> length (access_order ?c) \<and> cache ?c 3 = None \<and>
      max_size ?c \<le> int (length (access_order ?c))"
    by (simp add: cache_of_def)
  have keys: "distinct [1::nat, 2, 3, 4]" by simp
  from get_refreshes_recency [OF inv hit, of 3 30 1 2 3 4 10 20 30 40] full keys
  show ?thesis by blast
qed

text \<open>
  In a cache of capacity one the key just read is the only key: the next \<^verbatim>\<open>put\<close>
  evicts that very key.
\<close>

theorem get_single_entry_counterexample:
  "fst (get (cache_of [(1::nat, 10::nat)] 1) 1) = Some 10 \<and>
   put (snd (get (cache_of [(1::nat, 10::nat)] 1) 1)) 2 20 = Inr (cache_of [(2, 20)] 1)"
  by (simp add: cache_of_def get_def put_def)

section \<open>C8: put of a present key\<close>

text \<open>
  Claim C8.  \<^verbatim>\<open>put\<close> of a key that is present returns the cache as it was, for
  any buffer: size, stored buffer, recency list and every other entry are the
  same and nothing is evicted.  And a second \<^verbatim>\<open>put\<close> of the key of a first one
  changes nothing either.
\<close>

theorem put_present_is_noop:
  "(cache c k = Some b \<longrightarrow> put c k buf1 = Inr c \<and> put c k buf2 = Inr c) \<and>
   (put c k buf1 = Inr c1 \<longrightarrow> put c1 k buf2 = Inr c1)"
proof (intro conjI impI)
  assume "cache c k = Some b"
  then show "put c k buf1 = Inr c" "put c k buf2 = Inr c"
    by (simp_all add: put_present)
next
  assume "put c k buf1 = Inr c1"
  then have "cache c1 k \<noteq> None" by (rule put_stores)
  then obtain b' where "cache c1 k = Some b'" by blast
  then show "put c1 k buf2 = Inr c1" by (rule put_present)
qed

theorem put_present_is_noop_witness:
  "put (cache_of [(1::nat, 10::nat), (2, 20)] 2) 1 11 = Inr (cache_of [(1, 10), (2, 20)] 2) \<and>
   put (cache_of [(1::nat, 10::nat), (2, 20)] 2) 1 12 = Inr (cache_of [(1, 10), (2, 20)] 2)"
proof -
  let ?c = "cache_of [(1::nat, 10::nat), (2, 20)] 2"
  have h: "cache ?c 1 = Some 10" by (simp add: cache_of_def)
  from put_present_is_noop [of ?c 1 10 11 12 ?c] h
  have 1: "put ?c 1 11 = Inr ?c" and 2: "put ?c 1 12 = Inr ?c" by blast+
  from put_present_is_noop [of ?c 1 10 11 12 ?c] 1 have "put ?c 1 12 = Inr ?c" by blast
  with 1 show ?thesis by simp
qed

section \<open>C2: late, empty and duplicate completions\<close>

text \<open>
  Claim C2.  When the object delivered is \<^verbatim>\<open>None\<close> or not an array, or the level
  of the key is not the current level, or the key is already placed, the slot only
  removes the key from the pending set: the placed tiles and the scene stay as they
  are.  And once \<^verbatim>\<open>_maybe_change_level\<close> has changed the level, no tile is placed,
  and a completion for a key of the old level is discarded and its key is not
  among the placed tiles afterwards.
\<close>

theorem late_completion_discarded:
  "((arr = PyNone \<or> arr = PyOther \<or> level \<noteq> current_level s \<or> placed s (level, x, y)) \<longrightarrow>
      on_tile_loaded x y level arr s =
        Inr (s\<lparr>pending_tasks := pending_tasks s - {(level, x, y)}\<rparr>)) \<and>
   (maybe_change_level view_scale s = Inr s1 \<and> current_level s1 \<noteq> current_level s \<longrightarrow>
      wsi_tile_items s1 = [] \<and>
      on_tile_loaded x y (current_level s) arr s1 =
        Inr (s1\<lparr>pending_tasks := pending_tasks s1 - {(current_level s, x, y)}\<rparr>) \<and>
      \<not> placed (s1\<lparr>pending_tasks := pending_tasks s1 - {(current_level s, x, y)}\<rparr>)
          (current_level s, x, y))"
proof (intro conjI impI)
  assume "arr = PyNone \<or> arr = PyOther \<or> level \<noteq> current_level s \<or> placed s (level, x, y)"
  then show "on_tile_loaded x y level arr s =
      Inr (s\<lparr>pending_tasks := pending_tasks s - {(level, x, y)}\<rparr>)"
    by (intro on_tile_loaded_discard) auto
next
  assume a: "maybe_change_level view_scale s = Inr s1 \<and> current_level s1 \<noteq> current_level s"
  then have "s1 \<noteq> s" by auto
  with a refresh_no_tiles(1) [of view_scale s] show e: "wsi_tile_items s1 = []" by blast
  from a show "on_tile_loaded x y (current_level s) arr s1 =
      Inr (s1\<lparr>pending_tasks := pending_tasks s1 - {(current_level s, x, y)}\<rparr>)"
    by (intro on_tile_loaded_discard) auto
  from e show "\<not> placed (s1\<lparr>pending_tasks := pending_tasks s1 - {(current_level s, x, y)}\<rparr>)
      (current_level s, x, y)"
    by (simp add: placed_def)
qed

theorem late_completion_discarded_witness:
  "on_tile_loaded 0 0 1 (PyArray tile) in_flight =
     Inr (in_flight\<lparr>pending_tasks := pending_tasks in_flight - {(1, 0, 0)}\<rparr>) \<and>
   (\<exists>s1. maybe_change_level 3 in_flight = Inr s1 \<and> current_level s1 = 0 \<and>
      wsi_tile_items s1 = [] \<and>
      on_tile_loaded 0 0 2 (PyArray tile) s1 =
        Inr (s1\<lparr>pending_tasks := pending_tasks s1 - {(2, 0, 0)}\<rparr>) \<and>
      \<not> placed (s1\<lparr>pending_tasks := pending_tasks s1 - {(2, 0, 0)}\<rparr>) (2, 0, 0))"
proof -
  have f: "wsi_viewer in_flight = Some (WSIViewer_init pyramid)" "view_m11 in_flight = 3"
    "current_level in_flight = 2"
    by (simp_all add: in_flight_def viewing_def)
  from refresh_settles(1) [of 3 in_flight] f pyramid_downsamples
  obtain s1 where m: "maybe_change_level 3 in_flight = Inr s1"
    and l: "current_level s1 = settled_level (WSIViewer_init pyramid) in_flight"
    by auto
  from l f have l0: "current_level s1 = 0" by (simp add: settled_level_def upper_def)
  note T = late_completion_discarded [of "PyArray tile" _ in_flight 0 0 3 s1]
  from T [of 1] f have 1: "on_tile_loaded 0 0 1 (PyArray tile) in_flight =
      Inr (in_flight\<lparr>pending_tasks := pending_tasks in_flight - {(1, 0, 0)}\<rparr>)"
    by simp
  from T [of 1] m l0 f have "wsi_tile_items s1 = [] \<and>
      on_tile_loaded 0 0 2 (PyArray tile) s1 =
        Inr (s1\<lparr>pending_tasks := pending_tasks s1 - {(2, 0, 0)}\<rparr>) \<and>
      \<not> placed (s1\<lparr>pending_tasks := pending_tasks s1 - {(2, 0, 0)}\<rparr>) (2, 0, 0)"
    by simp
  with 1 m l0 show ?thesis by blast
qed

section \<open>C4: level selection\<close>

text \<open>
  Claim C4, evaluated where the code departs from it.  The four-level slide is
  shown at level 2 and the view is at scale 3, above 2.4.  The \<^verbatim>\<open>if\<close>/\<^verbatim>\<open>elif\<close> of
  \<^verbatim>\<open>_maybe_change_level\<close> takes the one step to level 1.  But the reload that
  follows ends in a forced refresh, which evaluates the selector again at the same
  scale of the view: when the call returns the level is 0, not 1.
\<close>

theorem zoom_in_skips_level:
  "current_level (change_level 3 (WSIViewer_init pyramid)
      (viewing pyramid 2 3 \<lparr>rx = 0, ry = 0, rw = 1024, rh = 1024\<rparr>)) = 1 \<and>
   map_sum id current_level
     (maybe_change_level 3 (viewing pyramid 2 3 \<lparr>rx = 0, ry = 0, rw = 1024, rh = 1024\<rparr>)) = Inr 0"
proof -
  let ?s = "viewing pyramid 2 3 \<lparr>rx = 0, ry = 0, rw = 1024, rh = 1024\<rparr>"
  have step: "current_level (change_level 3 (WSIViewer_init pyramid) ?s) = 1"
    by (simp add: change_level_def upper_def viewing_fields)
  from refresh_settles(1) [of "view_m11 ?s" ?s] viewing_viewer [of pyramid] pyramid_downsamples
  obtain s' where "maybe_change_level (view_m11 ?s) ?s = Inr s'"
    "current_level s' = settled_level (WSIViewer_init pyramid) ?s"
    by blast
  then have "map_sum id current_level (maybe_change_level 3 ?s) = Inr 0"
    by (simp add: viewing_fields settled_level_def upper_def)
  with step show ?thesis by simp
qed

section \<open>C6: nearest tiles first, at most 256 per pass\<close>

text \<open>
  Claim C6.  In a pass with a viewer and a visible rectangle (what the viewport
  shows of the scene), the candidates are
  the tile origins of the covered rows and columns whose key is neither placed nor
  pending, each with the squared distance of its centre from the centre of the
  rectangle.  They are sorted by that distance, ascending, and candidates of equal
  distance keep the order in which the loops produced them (rows, then columns).
  The tasks submitted are those of the first 256 candidates of the sorted list, in
  that order, and their keys are what the pass adds to the pending set.  In each
  round of the loop the key is added to the pending set before the task is
  submitted.
\<close>

theorem dispatch_nearest_first:
  assumes "wsi_viewer s = Some v" and "\<not> rect_isEmpty (pass_rect s)"
  shows "sorted (map fst (sort_key fst (pass_candidates s))) \<and>
         set (sort_key fst (pass_candidates s)) = set (pass_candidates s) \<and>
         length (sort_key fst (pass_candidates s)) = length (pass_candidates s) \<and>
         (\<forall>k. filter (\<lambda>c. fst c = k) (sort_key fst (pass_candidates s)) =
               filter (\<lambda>c. fst c = k) (pass_candidates s)) \<and>
         (\<forall>c \<in> set (pass_candidates s).
            fst c = dist2 (rect_center (pass_rect s)) (fst (snd c)) (snd (snd c)) \<and>
            \<not> placed (pass_state s) (key_of (current_level s) c) \<and>
            key_of (current_level s) c \<notin> pending_tasks s) \<and>
         (\<forall>x \<in> set (py_range (pass_x0 s) (py_int (rect_right (pass_rect s)) + TILE_SIZE) TILE_SIZE).
          \<forall>y \<in> set (py_range (pass_y0 s) (py_int (rect_bottom (pass_rect s)) + TILE_SIZE) TILE_SIZE).
            placed (pass_state s) (current_level s, x, y) \<or>
            (current_level s, x, y) \<in> pending_tasks s \<or>
            (dist2 (rect_center (pass_rect s)) x y, x, y) \<in> set (pass_candidates s)) \<and>
         executor (update_visible_tiles s) =
           executor s @ map (task_of (current_level s) (get_downsample v (current_level s)))
             (take 256 (sort_key fst (pass_candidates s))) \<and>
         pending_tasks (update_visible_tiles s) =
           pending_tasks s \<union>
           key_of (current_level s) ` set (take 256 (sort_key fst (pass_candidates s))) \<and>
         length (executor (update_visible_tiles s)) \<le> length (executor s) + 256 \<and>
         (\<forall>ds n d x y cs s0. n < MAX_TILES_PER_REQUEST \<longrightarrow>
            dispatch ds n ((d, x, y) # cs) s0 =
              dispatch ds (n + 1) cs
                (executor_submit (make_task (current_level s0) ds x y)
                   (pending_add (current_level s0, x, y) s0)) \<and>
            (current_level s0, x, y) \<in> pending_tasks (pending_add (current_level s0, x, y) s0))"
proof (intro conjI)
  let ?cs = "sort_key fst (pass_candidates s)"
  show "sorted (map fst ?cs)" by (rule sorted_sort_key)
  show "set ?cs = set (pass_candidates s)" by simp
  show "length ?cs = length (pass_candidates s)" by simp
  show "\<forall>k. filter (\<lambda>c. fst c = k) ?cs = filter (\<lambda>c. fst c = k) (pass_candidates s)"
    by (simp add: sort_key_stable)
  show "\<forall>c \<in> set (pass_candidates s).
      fst c = dist2 (rect_center (pass_rect s)) (fst (snd c)) (snd (snd c)) \<and>
      \<not> placed (pass_state s) (key_of (current_level s) c) \<and>
      key_of (current_level s) c \<notin> pending_tasks s"
  proof
    fix c
    assume c: "c \<in> set (pass_candidates s)"
    obtain d x y where [simp]: "c = (d, x, y)" by (cases c)
    from c candidates_sound [of d x y "pass_state s"]
    show "fst c = dist2 (rect_center (pass_rect s)) (fst (snd c)) (snd (snd c)) \<and>
        \<not> placed (pass_state s) (key_of (current_level s) c) \<and>
        key_of (current_level s) c \<notin> pending_tasks s"
      by (simp add: pass_candidates_def key_of_def pass_state_frame)
  qed
  show "\<forall>x \<in> set (py_range (pass_x0 s) (py_int (rect_right (pass_rect s)) + TILE_SIZE) TILE_SIZE).
      \<forall>y \<in> set (py_range (pass_y0 s) (py_int (rect_bottom (pass_rect s)) + TILE_SIZE) TILE_SIZE).
        placed (pass_state s) (current_level s, x, y) \<or>
        (current_level s, x, y) \<in> pending_tasks s \<or>
        (dist2 (rect_center (pass_rect s)) x y, x, y) \<in> set (pass_candidates s)"
    by (auto simp: pass_candidates_def candidates_def pass_state_frame)
  from update_visible_tiles_pass [OF assms]
  have u: "update_visible_tiles s =
      (pass_state s)\<lparr>pending_tasks := pending_tasks s \<union> key_of (current_level s) ` set (take 256 ?cs),
        executor := executor s @
          map (task_of (current_level s) (get_downsample v (current_level s))) (take 256 ?cs)\<rparr>"
    by (simp add: dispatch_take pass_state_frame MAX_TILES_PER_REQUEST_def)
  from u show "executor (update_visible_tiles s) =
      executor s @ map (task_of (current_level s) (get_downsample v (current_level s)))
        (take 256 ?cs)"
    by simp
  from u show "pending_tasks (update_visible_tiles s) =
      pending_tasks s \<union> key_of (current_level s) ` set (take 256 ?cs)"
    by simp
  from u show "length (executor (update_visible_tiles s)) \<le> length (executor s) + 256"
    by simp
  show "\<forall>ds n d x y cs s0. n < MAX_TILES_PER_REQUEST \<longrightarrow>
      dispatch ds n ((d, x, y) # cs) s0 =
        dispatch ds (n + 1) cs
          (executor_submit (make_task (current_level s0) ds x y)
             (pending_add (current_level s0, x, y) s0)) \<and>
      (current_level s0, x, y) \<in> pending_tasks (pending_add (current_level s0, x, y) s0)"
    by (simp add: pending_add_def)
qed

theorem dispatch_nearest_first_witness:
  "map (\<lambda>t. (task_tx t, task_ty t)) (executor (update_visible_tiles central)) =
     [(0, 0), (512, 0), (0, 512), (512, 512), (1024, 0), (0, 1024), (1024, 512),
      (512, 1024), (1024, 1024)] \<and>
   map fst (sort_key fst (pass_candidates central)) =
     [119072, 131360, 131360, 143648, 667936, 667936, 680224, 680224, 1216800] \<and>
   sorted (map fst (sort_key fst (pass_candidates central))) \<and>
   filter (\<lambda>c. fst c = 131360) (sort_key fst (pass_candidates central)) =
     filter (\<lambda>c. fst c = 131360) (pass_candidates central) \<and>
   \<not> placed (pass_state central) (2, 512, 0) \<and>
   pending_tasks (update_visible_tiles central) =
     {(2, 0, 0), (2, 512, 0), (2, 0, 512), (2, 512, 512), (2, 1024, 0), (2, 0, 1024),
      (2, 1024, 512), (2, 512, 1024), (2, 1024, 1024)} \<and>
   (2, 512, 0) \<in> pending_tasks (pending_add (2, 512, 0) central)"
proof -
  have ne: "\<not> rect_isEmpty (pass_rect central)"
    by (simp add: central_pass rect_isEmpty_def)
  note T = dispatch_nearest_first [OF central_viewer ne]
  from T have ex: "executor (update_visible_tiles central) =
      executor central @
      map (task_of (current_level central)
            (get_downsample (WSIViewer_init pyramid) (current_level central)))
        (take 256 (sort_key fst (pass_candidates central)))"
    by blast
  from T have pe: "pending_tasks (update_visible_tiles central) =
      pending_tasks central \<union>
      key_of (current_level central) ` set (take 256 (sort_key fst (pass_candidates central)))"
    by blast
  from T have so: "sorted (map fst (sort_key fst (pass_candidates central)))" by blast
  from T have st: "filter (\<lambda>c. fst c = 131360) (sort_key fst (pass_candidates central)) =
      filter (\<lambda>c. fst c = 131360) (pass_candidates central)"
    by blast
  from T have "\<forall>c \<in> set (pass_candidates central).
      \<not> placed (pass_state central) (key_of (current_level central) c)"
    by blast
  then have np: "\<not> placed (pass_state central) (2, 512, 0)"
    by (simp add: central_candidates central_pass key_of_def)
  from T have "\<forall>ds n d x y cs s0. n < MAX_TILES_PER_REQUEST \<longrightarrow>
      (current_level s0, x, y) \<in> pending_tasks (pending_add (current_level s0, x, y) s0)"
    by blast
  from this [rule_format, of 0 central 512 0]
  have pa: "(2, 512, 0) \<in> pending_tasks (pending_add (2, 512, 0) central)"
    by (simp add: MAX_TILES_PER_REQUEST_def central_pass)
  from ex have ex': "map (\<lambda>t. (task_tx t, task_ty t)) (executor (update_visible_tiles central)) =
      [(0, 0), (512, 0), (0, 512), (512, 512), (1024, 0), (0, 1024), (1024, 512),
       (512, 1024), (1024, 1024)]"
    by (simp add: central_sorted central_fields task_of_def make_task_def)
  from pe have pe': "pending_tasks (update_visible_tiles central) =
      {(2, 0, 0), (2, 512, 0), (2, 0, 512), (2, 512, 512), (2, 1024, 0), (2, 0, 1024),
       (2, 1024, 512), (2, 512, 1024), (2, 1024, 1024)}"
    by (simp add: central_sorted central_fields central_pass key_of_def)
  have ks: "map fst (sort_key fst (pass_candidates central)) =
      [119072, 131360, 131360, 143648, 667936, 667936, 680224, 680224, 1216800]"
    by (simp add: central_sorted)
  from ex' ks so st np pe' pa show ?thesis by blast
qed

section \<open>C3: a failed region read\<close>

text \<open>
  Claim C3, evaluated on the slide whose regions cannot be read.  The pass
  dispatches the key \<open>(2, 0, 0)\<close> first.  Its task ends with the exception of
  \<^verbatim>\<open>read_region\<close> before it emits \<^verbatim>\<open>tile_loaded\<close>, so the slot never runs: the
  widget is as it was, the key is still pending and not placed, and the next pass
  changes nothing, so the key is not dispatched again.
\<close>

theorem failed_read_stays_pending:
  "hd (executor (update_visible_tiles failing)) = Task 2 0 0 0 0 512 \<and>
   run_task (Task 2 0 0 0 0 512) (update_visible_tiles failing) =
     (Inl OpenSlideError, update_visible_tiles failing) \<and>
   complete_task (Task 2 0 0 0 0 512) (update_visible_tiles failing) =
     Inr (update_visible_tiles failing) \<and>
   (2, 0, 0) \<in> pending_tasks (update_visible_tiles failing) \<and>
   \<not> placed (update_visible_tiles failing) (2, 0, 0) \<and>
   update_visible_tiles (update_visible_tiles failing) = update_visible_tiles failing"
proof -
  let ?s = "update_visible_tiles failing"
  have v: "wsi_viewer ?s = Some (WSIViewer_init unreadable)"
    by (simp add: failing_dispatched failing_pass)
  have miss: "cache (viewer_cache (WSIViewer_init unreadable)) (2, 0, 0, 512) = None"
    by (simp add: WSIViewer_init_def TileCache_init_def)
  have err: "read_region (viewer_slide (WSIViewer_init unreadable)) (0, 0) 2 (512, 512) =
      Inl OpenSlideError"
    by (simp add: WSIViewer_init_def unreadable_def)
  note c = complete_task_read_fails [OF v miss err, of 0 0]
  have h: "hd (executor ?s) = Task 2 0 0 0 0 512" by (simp add: failing_dispatched)
  have p: "(2, 0, 0) \<in> pending_tasks ?s" by (simp add: failing_dispatched)
  have "wsi_tile_items ?s = []"
    by (intro update_visible_tiles_no_tiles) (simp add: failing_def viewing_fields)
  then have np: "\<not> placed ?s (2, 0, 0)" by (simp add: placed_def)
  from h c p np failing_second_pass show ?thesis by simp
qed

section \<open>C5: the centre across a level change\<close>




section \<open>C10: the state after opening a slide\<close>

text \<open>
  Claim C10, with the single-level case.  After \<^verbatim>\<open>open_slide\<close> on a slide that
  opens, the level is \<open>min 2 (level_count - 1)\<close>: level 2 when there are three
  levels or more, the coarsest level otherwise; it is level 0 exactly when the
  slide has one level.  No tile is placed and no key is pending.
\<close>

theorem open_slide_initial_level:
  "\<exists>s'. open_slide (Inr sl) fitted s = Inr s' \<and>
     current_level s' = min 2 (level_count sl - 1) \<and>
     current_level s' = (if 3 \<le> level_count sl then 2 else level_count sl - 1) \<and>
     (current_level s' = 0) = (level_count sl = 1) \<and>
     wsi_tile_items s' = [] \<and> pending_tasks s' = {} \<and>
     wsi_viewer s' = Some (WSIViewer_init sl)"
  by (auto simp: open_slide_def fit_in_view_def Let_def get_level_count_def WSIViewer_init_def
      split: option.splits)

theorem open_slide_initial_level_witness:
  "\<exists>s'. open_slide (Inr pyramid) (1, QRectF_null) in_flight = Inr s' \<and>
     current_level s' = 2 \<and> wsi_tile_items s' = [] \<and> pending_tasks s' = {}"
proof -
  from open_slide_initial_level [of pyramid "(1, QRectF_null)" in_flight]
  obtain s' where "open_slide (Inr pyramid) (1, QRectF_null) in_flight = Inr s'"
    and "current_level s' = min 2 (level_count pyramid - 1)"
    and "wsi_tile_items s' = []" and "pending_tasks s' = {}"
    by blast
  then show ?thesis by (simp add: pyramid_def)
qed

text \<open>A slide with a single level opens at level 0.\<close>

theorem single_level_opens_at_level_zero_counterexample:
  "map_sum id current_level (open_slide (Inr single_level) (1, QRectF_null) MainWidget_init) = Inr 0"
  by (simp add: open_slide_def fit_in_view_def Let_def get_level_count_def WSIViewer_init_def
      single_level_def pyramid_def MainWidget_init_def)

end
